theory Spec2Isabelle
  imports Complex_Main "HOL-Library.AList"
begin

section \<open>JavaScript values and strings\<close>

text \<open>
  The orchestrator's trigger handler is declared \<^verbatim>\<open>handleIssueTriggered(issue: any, ...)\<close>
  and reads \<^verbatim>\<open>const { owner, repo, number } = issue\<close>: a property the argument does not
  have reads as \<^verbatim>\<open>undefined\<close>. The values that flow from that argument into the registry
  are therefore modelled as JavaScript values, not as the strings and numbers of the
  TypeScript annotations.
\<close>

datatype jsval = JUndefined | JStr string | JNum int

text \<open>Decimal rendering of an integer, what a template literal does to an integral number
  (below the \<^verbatim>\<open>1e21\<close> threshold of exponent notation).\<close>

fun digits :: "nat \<Rightarrow> string" where
  "digits n = (if n < 10 then [''0123456789'' ! n]
               else digits (n div 10) @ [''0123456789'' ! (n mod 10)])"

declare digits.simps [simp del]

definition js_number_to_string :: "int \<Rightarrow> string" where
  "js_number_to_string n = (if n < 0 then ''-'' @ digits (nat (- n)) else digits (nat n))"

text \<open>\<^verbatim>\<open>`${v}`\<close>: the string conversion of a template literal.\<close>

fun js_template :: "jsval \<Rightarrow> string" where
  "js_template JUndefined = ''undefined''"
| "js_template (JStr s) = s"
| "js_template (JNum n) = js_number_to_string n"

text \<open>
  A value of the type \<^verbatim>\<open>number\<close> that the code compares with a count: a finite value (every
  double is a rational number), an infinity, or \<^verbatim>\<open>NaN\<close>. \<open>number_less\<close> is the operator \<^verbatim>\<open><\<close>:
  a comparison with \<^verbatim>\<open>NaN\<close> is false.
\<close>

datatype number = Finite rat | PosInfinity | NegInfinity | NaN

fun number_less :: "number \<Rightarrow> number \<Rightarrow> bool" where
  "number_less (Finite a) (Finite b) = (a < b)"
| "number_less (Finite a) PosInfinity = True"
| "number_less NegInfinity (Finite b) = True"
| "number_less NegInfinity PosInfinity = True"
| "number_less x y = False"

fun is_str :: "jsval \<Rightarrow> bool" where
  "is_str (JStr s) = True"
| "is_str v = False"

text \<open>
  A character of a string is a code unit below 256, the Latin-1 range of Unicode. There
  \<^verbatim>\<open>String.prototype.toLowerCase\<close> maps the letters \<^verbatim>\<open>A\<close> to \<^verbatim>\<open>Z\<close> and the letters \<^verbatim>\<open>U+00C0\<close> to
  \<^verbatim>\<open>U+00DE\<close>, the multiplication sign \<^verbatim>\<open>U+00D7\<close> apart, to the code unit 32 above, and leaves
  every other code unit as it is.
\<close>

definition upperCaseLetters :: string where
  "upperCaseLetters = ''ABCDEFGHIJKLMNOPQRSTUVWXYZ'' @
     [CHR 0xC0, CHR 0xC1, CHR 0xC2, CHR 0xC3, CHR 0xC4, CHR 0xC5, CHR 0xC6, CHR 0xC7,
      CHR 0xC8, CHR 0xC9, CHR 0xCA, CHR 0xCB, CHR 0xCC, CHR 0xCD, CHR 0xCE, CHR 0xCF,
      CHR 0xD0, CHR 0xD1, CHR 0xD2, CHR 0xD3, CHR 0xD4, CHR 0xD5, CHR 0xD6,
      CHR 0xD8, CHR 0xD9, CHR 0xDA, CHR 0xDB, CHR 0xDC, CHR 0xDD, CHR 0xDE]"

definition lowerCaseLetters :: string where
  "lowerCaseLetters = ''abcdefghijklmnopqrstuvwxyz'' @
     [CHR 0xE0, CHR 0xE1, CHR 0xE2, CHR 0xE3, CHR 0xE4, CHR 0xE5, CHR 0xE6, CHR 0xE7,
      CHR 0xE8, CHR 0xE9, CHR 0xEA, CHR 0xEB, CHR 0xEC, CHR 0xED, CHR 0xEE, CHR 0xEF,
      CHR 0xF0, CHR 0xF1, CHR 0xF2, CHR 0xF3, CHR 0xF4, CHR 0xF5, CHR 0xF6,
      CHR 0xF8, CHR 0xF9, CHR 0xFA, CHR 0xFB, CHR 0xFC, CHR 0xFD, CHR 0xFE]"

definition to_lower_char :: "char \<Rightarrow> char" where
  "to_lower_char c =
     (case map_of (zip upperCaseLetters lowerCaseLetters) c of None \<Rightarrow> c | Some d \<Rightarrow> d)"

definition toLowerCase :: "string \<Rightarrow> string" where
  "toLowerCase s = map to_lower_char s"

definition endsWith :: "string \<Rightarrow> string \<Rightarrow> bool" where
  "endsWith s p = (length p \<le> length s \<and> drop (length s - length p) s = p)"

definition startsWith :: "string \<Rightarrow> string \<Rightarrow> bool" where
  "startsWith s p = (take (length p) s = p)"

fun includesStr :: "string \<Rightarrow> string \<Rightarrow> bool" where
  "includesStr [] p = (p = [])"
| "includesStr (c # cs) p = (take (length p) (c # cs) = p \<or> includesStr cs p)"


section \<open>The active-work registry (class StateManager)\<close>

datatype ActiveIssueStatus =
  Starting | Cloning | Analyzing | Developing | Testing | PrCreated
  | AwaitingReview | Iterating | Done | Error | Aborted

text \<open>
  \<^verbatim>\<open>interface ActiveIssue\<close>. Dates are milliseconds since the epoch; an optional field is
  an \<open>option\<close>. A \<^verbatim>\<open>Date\<close> object is always truthy, so \<^verbatim>\<open>!issue.lastHeartbeat\<close> holds exactly
  for \<open>None\<close>.
\<close>

record ActiveIssue =
  repoOwner :: jsval
  repoName :: jsval
  issueNumber :: jsval
  issueTitle :: jsval
  issueBody :: jsval
  containerId :: string
  containerName :: string
  status :: ActiveIssueStatus
  branchName :: string
  prNumber :: "int option"
  startedAt :: int
  lastHeartbeat :: "int option"
  error :: "string option"

text \<open>
  \<^verbatim>\<open>private activeIssues: Map<string, ActiveIssue>\<close> is an association list in insertion
  order: \<^verbatim>\<open>Map.set\<close> on a present key replaces the value in place, on a new key it appends
  (\<^const>\<open>AList.update\<close>); \<^verbatim>\<open>Map.delete\<close> is \<^const>\<open>AList.delete\<close>; \<^verbatim>\<open>size\<close> is the length.
  \<^verbatim>\<open>private maxConcurrent: number\<close> is \<^verbatim>\<open>config.containers.maxConcurrent\<close>, whatever number the
  configuration holds.
\<close>

record StateManager =
  activeIssues :: "(string \<times> ActiveIssue) list"
  maxConcurrent :: number

definition newStateManager :: "number \<Rightarrow> StateManager" where
  "newStateManager m = \<lparr>activeIssues = [], maxConcurrent = m\<rparr>"

text \<open>
  Where that number comes from (the configuration loader). \<^verbatim>\<open>validateConfig\<close> checks it when
  the file sets it:
  \<^verbatim>\<open>
  if (config.containers?.maxConcurrent !== undefined) {
    if (typeof config.containers.maxConcurrent !== 'number' || config.containers.maxConcurrent < 1) {
      throw new Error('containers.maxConcurrent must be a positive number');
    }
  }
  \<close>
  and \<^verbatim>\<open>loadConfigWithDefaults\<close> takes \<^verbatim>\<open>config.containers?.maxConcurrent || 5\<close>, where zero and
  \<^verbatim>\<open>NaN\<close> are falsy. The argument is the number the file holds, \<open>None\<close> when it holds none;
  \<open>validateConfig_maxConcurrent\<close> is true when nothing is thrown.
\<close>

definition validateConfig_maxConcurrent :: "number option \<Rightarrow> bool" where
  "validateConfig_maxConcurrent configured =
     (case configured of None \<Rightarrow> True | Some m \<Rightarrow> \<not> number_less m (Finite 1))"

definition loadConfigWithDefaults_maxConcurrent :: "number option \<Rightarrow> number" where
  "loadConfigWithDefaults_maxConcurrent configured =
     (case configured of
        None \<Rightarrow> Finite 5
      | Some m \<Rightarrow> if m = NaN \<or> m = Finite 0 then Finite 5 else m)"

text \<open>\<^verbatim>\<open>return `${owner}/${repo}#${issueNumber}`;\<close>\<close>

definition getIssueKey :: "jsval \<Rightarrow> jsval \<Rightarrow> jsval \<Rightarrow> string" where
  "getIssueKey owner repo num =
     js_template owner @ ''/'' @ js_template repo @ ''#'' @ js_template num"

definition issueKeyOf :: "ActiveIssue \<Rightarrow> string" where
  "issueKeyOf issue = getIssueKey (repoOwner issue) (repoName issue) (issueNumber issue)"

text \<open>\<^verbatim>\<open>const activeCount = this.activeIssues.size; return activeCount < this.maxConcurrent;\<close>\<close>

definition canStartNew :: "StateManager \<Rightarrow> bool" where
  "canStartNew sm = number_less (Finite (of_nat (length (activeIssues sm)))) (maxConcurrent sm)"

text \<open>
  \<^verbatim>\<open>return this.activeIssues.size - this.maxConcurrent + 1;\<close> The finite case is computed in
  the rational numbers, without the rounding of doubles.
\<close>

definition getQueuePosition :: "StateManager \<Rightarrow> number" where
  "getQueuePosition sm =
     (case maxConcurrent sm of
        Finite m \<Rightarrow> Finite (of_nat (length (activeIssues sm)) - m + 1)
      | PosInfinity \<Rightarrow> NegInfinity
      | NegInfinity \<Rightarrow> PosInfinity
      | NaN \<Rightarrow> NaN)"

text \<open>\<^verbatim>\<open>this.activeIssues.set(this.getIssueKey(issue.repoOwner, ...), issue);\<close>\<close>

definition registerIssue :: "StateManager \<Rightarrow> ActiveIssue \<Rightarrow> StateManager" where
  "registerIssue sm issue =
     sm\<lparr>activeIssues := AList.update (issueKeyOf issue) issue (activeIssues sm)\<rparr>"

definition getIssue :: "StateManager \<Rightarrow> jsval \<Rightarrow> jsval \<Rightarrow> jsval \<Rightarrow> ActiveIssue option" where
  "getIssue sm owner repo num =
     map_of (activeIssues sm) (getIssueKey owner repo num)"

definition getAllActive :: "StateManager \<Rightarrow> ActiveIssue list" where
  "getAllActive sm = map snd (activeIssues sm)"

text \<open>The first unit, in insertion order, with that container id.\<close>

definition getIssueByContainerId :: "StateManager \<Rightarrow> string \<Rightarrow> ActiveIssue option" where
  "getIssueByContainerId sm cid = find (\<lambda>issue. containerId issue = cid) (getAllActive sm)"

text \<open>
  \<^verbatim>\<open>
  const issue = this.getIssue(owner, repo, issueNumber);
  if (issue) {
    issue.status = status;
    issue.lastHeartbeat = new Date();
    if (error) { issue.error = error; }
  }
  \<close>
  The clock reading of \<^verbatim>\<open>new Date()\<close> is the argument \<open>now\<close>; the optional \<^verbatim>\<open>error\<close> string
  is truthy when it is present and not empty.
\<close>

definition applyStatus :: "ActiveIssueStatus \<Rightarrow> string option \<Rightarrow> int \<Rightarrow> ActiveIssue \<Rightarrow> ActiveIssue" where
  "applyStatus st err now issue =
     (let issue1 = issue\<lparr>status := st, lastHeartbeat := Some now\<rparr>
      in case err of
           None \<Rightarrow> issue1
         | Some e \<Rightarrow> if e = [] then issue1 else issue1\<lparr>error := Some e\<rparr>)"

definition updateIssueStatus ::
  "StateManager \<Rightarrow> jsval \<Rightarrow> jsval \<Rightarrow> jsval \<Rightarrow> ActiveIssueStatus \<Rightarrow> string option \<Rightarrow> int \<Rightarrow> StateManager" where
  "updateIssueStatus sm owner repo num st err now =
     sm\<lparr>activeIssues :=
          AList.map_entry (getIssueKey owner repo num) (applyStatus st err now) (activeIssues sm)\<rparr>"

text \<open>
  \<^verbatim>\<open>
  const issue = this.getIssueByContainerId(containerId);
  if (issue) { Object.assign(issue, updates); issue.lastHeartbeat = new Date(); }
  \<close>
  \<^verbatim>\<open>Object.assign\<close> with a fixed partial object overwrites the fields it holds: the function
  \<open>updates\<close>. The unit stays under the key it was registered with.
\<close>

fun assignFirst :: "(ActiveIssue \<Rightarrow> bool) \<Rightarrow> (ActiveIssue \<Rightarrow> ActiveIssue) \<Rightarrow>
    (string \<times> ActiveIssue) list \<Rightarrow> (string \<times> ActiveIssue) list" where
  "assignFirst p f [] = []"
| "assignFirst p f ((k, issue) # rest) =
     (if p issue then (k, f issue) # rest else (k, issue) # assignFirst p f rest)"

definition updateIssueByContainerId ::
  "StateManager \<Rightarrow> string \<Rightarrow> (ActiveIssue \<Rightarrow> ActiveIssue) \<Rightarrow> int \<Rightarrow> StateManager" where
  "updateIssueByContainerId sm cid updates now =
     sm\<lparr>activeIssues :=
          assignFirst (\<lambda>issue. containerId issue = cid)
            (\<lambda>issue. (updates issue)\<lparr>lastHeartbeat := Some now\<rparr>) (activeIssues sm)\<rparr>"

text \<open>\<^verbatim>\<open>if (issue) { issue.prNumber = prNumber; issue.status = 'pr_created'; }\<close>\<close>

definition setPRNumber :: "StateManager \<Rightarrow> jsval \<Rightarrow> jsval \<Rightarrow> jsval \<Rightarrow> int \<Rightarrow> StateManager" where
  "setPRNumber sm owner repo num pr =
     sm\<lparr>activeIssues :=
          AList.map_entry (getIssueKey owner repo num)
            (\<lambda>issue. issue\<lparr>prNumber := Some pr, status := PrCreated\<rparr>) (activeIssues sm)\<rparr>"

definition removeIssue :: "StateManager \<Rightarrow> jsval \<Rightarrow> jsval \<Rightarrow> jsval \<Rightarrow> StateManager" where
  "removeIssue sm owner repo num =
     sm\<lparr>activeIssues := AList.delete (getIssueKey owner repo num) (activeIssues sm)\<rparr>"

definition getIssuesByStatus :: "StateManager \<Rightarrow> ActiveIssueStatus \<Rightarrow> ActiveIssue list" where
  "getIssuesByStatus sm st = filter (\<lambda>issue. status issue = st) (getAllActive sm)"

definition isIssueActive :: "StateManager \<Rightarrow> jsval \<Rightarrow> jsval \<Rightarrow> jsval \<Rightarrow> bool" where
  "isIssueActive sm owner repo num = (getIssue sm owner repo num \<noteq> None)"

text \<open>
  \<^verbatim>\<open>
  getStaleIssues(heartbeatTimeoutMs: number = 5 * 60 * 1000): ActiveIssue[] {
    const now = Date.now();
    return this.getAllActive().filter(issue => {
      if (!issue.lastHeartbeat) {
        return (now - issue.startedAt.getTime()) > 10 * 60 * 1000;
      }
      return (now - issue.lastHeartbeat.getTime()) > heartbeatTimeoutMs;
    });
  }
  \<close>
\<close>

definition isStale :: "int \<Rightarrow> int \<Rightarrow> ActiveIssue \<Rightarrow> bool" where
  "isStale now heartbeatTimeoutMs issue =
     (case lastHeartbeat issue of
        None \<Rightarrow> now - startedAt issue > 10 * 60 * 1000
      | Some hb \<Rightarrow> now - hb > heartbeatTimeoutMs)"

definition getStaleIssues :: "StateManager \<Rightarrow> int \<Rightarrow> int \<Rightarrow> ActiveIssue list" where
  "getStaleIssues sm now heartbeatTimeoutMs = filter (isStale now heartbeatTimeoutMs) (getAllActive sm)"

definition defaultHeartbeatTimeoutMs :: int where
  "defaultHeartbeatTimeoutMs = 5 * 60 * 1000"


section \<open>The orchestrator's event handlers (class Orchestrator)\<close>

text \<open>
  The bodies of the comments the orchestrator posts, by kind and with the values
  interpolated into them.
\<close>

datatype comment_body =
  AlreadyHandled
  | SlotsFull number
  | StartingAgent string
  | StartFailed string
  | AgentCompleted int
  | FeedbackReceived string
  | AgentStopped string

text \<open>The calls made to the external collaborators, in the order they are made.\<close>

datatype effect =
  PostIssueComment jsval jsval jsval comment_body
  | AddReaction jsval jsval jsval string
  | CreateContainer ActiveIssue
  | RemoveContainer string
  | GetContainerStatus string
  | GetLogs string nat

text \<open>
  What a handler invocation leaves behind: the registry, the calls it made, and whether an
  exception escapes it.
\<close>

type_synonym outcome = "StateManager \<times> effect list \<times> bool"

text \<open>The properties \<^verbatim>\<open>handleIssueTriggered\<close> reads from its \<^verbatim>\<open>issue: any\<close> argument.\<close>

record TriggerIssue =
  t_owner :: jsval
  t_repo :: jsval
  t_number :: jsval
  t_title :: jsval
  t_body :: jsval

text \<open>
  The webhook server calls the handler with an object
  \<^verbatim>\<open>{ owner: repository.owner.login, repo: repository.name, number: issue.number,
     title: issue.title, body: issue.body || '', ... }\<close>.
\<close>

definition webhookTrigger :: "string \<Rightarrow> string \<Rightarrow> int \<Rightarrow> string \<Rightarrow> string \<Rightarrow> TriggerIssue" where
  "webhookTrigger owner repo num title body =
     \<lparr>t_owner = JStr owner, t_repo = JStr repo, t_number = JNum num,
      t_title = JStr title, t_body = JStr body\<rparr>"


text \<open>
  The outside world during one trigger: the clock readings and the results of the external
  calls. A reply is \<open>None\<close> when \<^verbatim>\<open>postIssueComment\<close> resolves and \<open>Some e\<close> when it throws
  \<open>e\<close>; \<open>dockerStart\<close> is the container id (\<open>Inr\<close>), or the text of the error Docker
  answers with (\<open>Inl\<close>).
  (\<^verbatim>\<open>addReaction\<close> catches its own errors and never throws.)
\<close>

record TriggerWorld =
  clockBranch :: int
  clockStarted :: int
  rejectReply :: "string option"
  startReply :: "string option"
  dockerStart :: "string + string"
  failReply :: "string option"

text \<open>
  \<^verbatim>\<open>ContainerManager.startAgentContainer\<close>: before Docker is reached it calls
  \<^verbatim>\<open>issue.repoOwner.toLowerCase()\<close>, \<^verbatim>\<open>issue.repoName.toLowerCase()\<close>,
  \<^verbatim>\<open>escapeEnvVar(issue.issueTitle)\<close>, \<^verbatim>\<open>escapeEnvVar(issue.issueBody)\<close> (which calls
  \<^verbatim>\<open>value.replace\<close>) and \<^verbatim>\<open>issue.issueNumber.toString()\<close>, each a TypeError on a value
  without that method. Only after these is the Docker daemon asked to create and start the
  container (the effect \<open>CreateContainer\<close>).
\<close>

definition startAgentContainer :: "TriggerWorld \<Rightarrow> ActiveIssue \<Rightarrow> effect list \<times> (string + string)" where
  "startAgentContainer w issue =
     (if is_str (repoOwner issue) \<and> is_str (repoName issue) \<and> is_str (issueTitle issue)
         \<and> is_str (issueBody issue) \<and> issueNumber issue \<noteq> JUndefined
      then ([CreateContainer issue], dockerStart w) else ([], Inl ''TypeError''))"

text \<open>
  \<^verbatim>\<open>
  private async handleIssueTriggered(issue: any, commentId: number): Promise<void> {
    const { owner, repo, number } = issue;
    if (this.stateManager.isIssueActive(owner, repo, number)) {
      await this.githubClient.postIssueComment(owner, repo, number, '... already being handled ...');
      return;
    }
    if (!this.stateManager.canStartNew()) {
      const queuePos = this.stateManager.getQueuePosition();
      await this.githubClient.postIssueComment(owner, repo, number, `... Queue position: #${queuePos} ...`);
      return;
    }
    const branchName = `ai-agent-issue-${number}-${Date.now()}`;
    const activeIssue: ActiveIssue = { repoOwner: owner, repoName: repo, issueNumber: number,
      issueTitle: issue.title, issueBody: issue.body, containerId: '', containerName: '',
      status: 'starting', branchName, startedAt: new Date() };
    try {
      await this.githubClient.addReaction(owner, repo, commentId, 'rocket');
      await this.githubClient.postIssueComment(owner, repo, number, `... Starting agent ...`);
      const containerId = await this.containerManager.startAgentContainer(activeIssue);
      activeIssue.containerId = containerId;
      activeIssue.containerName = `agent-${owner}-${repo}-issue-${number}`;
      this.stateManager.registerIssue(activeIssue);
    } catch (error) {
      await this.githubClient.postIssueComment(owner, repo, number, `... Failed to start agent: ${error} ...`);
    }
  }
  \<close>
\<close>

definition newActiveIssue :: "TriggerWorld \<Rightarrow> TriggerIssue \<Rightarrow> ActiveIssue" where
  "newActiveIssue w issue =
     \<lparr>repoOwner = t_owner issue, repoName = t_repo issue, issueNumber = t_number issue,
      issueTitle = t_title issue, issueBody = t_body issue,
      containerId = [], containerName = [], status = Starting,
      branchName = ''ai-agent-issue-'' @ js_template (t_number issue) @ ''-''
                     @ js_number_to_string (clockBranch w),
      prNumber = None, startedAt = clockStarted w, lastHeartbeat = None, error = None\<rparr>"

definition handleIssueTriggered :: "TriggerWorld \<Rightarrow> StateManager \<Rightarrow> TriggerIssue \<Rightarrow> jsval \<Rightarrow> outcome" where
  "handleIssueTriggered w sm issue commentId =
     (let owner = t_owner issue; repo = t_repo issue; num = t_number issue in
      if isIssueActive sm owner repo num then
        (sm, [PostIssueComment owner repo num AlreadyHandled], rejectReply w \<noteq> None)
      else if \<not> canStartNew sm then
        (sm, [PostIssueComment owner repo num (SlotsFull (getQueuePosition sm))], rejectReply w \<noteq> None)
      else
        let activeIssue = newActiveIssue w issue;
            announced = [AddReaction owner repo commentId ''rocket'',
                         PostIssueComment owner repo num (StartingAgent (branchName activeIssue))]
        in case startReply w of
             Some e \<Rightarrow>
               (sm, announced @ [PostIssueComment owner repo num (StartFailed e)], failReply w \<noteq> None)
           | None \<Rightarrow>
               (case startAgentContainer w activeIssue of
                  (docker, Inl e) \<Rightarrow>
                    (sm, announced @ docker @ [PostIssueComment owner repo num (StartFailed e)],
                     failReply w \<noteq> None)
                | (docker, Inr cid) \<Rightarrow>
                    (registerIssue sm
                       (activeIssue\<lparr>containerId := cid,
                                    containerName := ''agent-'' @ js_template owner @ ''-''
                                       @ js_template repo @ ''-issue-'' @ js_template num\<rparr>),
                     announced @ docker, False)))"



text \<open>
  \<^verbatim>\<open>
  private async handlePRClosed(owner: string, repo: string, prNumber: number): Promise<void> {
    const activeIssues = this.stateManager.getAllActive();
    const issue = activeIssues.find(i => i.prNumber === prNumber);
    if (!issue) { return; }
    try {
      if (issue.containerId) { await this.containerManager.removeContainer(issue.containerId); }
      this.stateManager.removeIssue(issue.repoOwner, issue.repoName, issue.issueNumber);
      await this.githubClient.postIssueComment(owner, repo, issue.issueNumber, `... completed ...`);
    } catch (error) { logger.error(...); }
  }
  \<close>
  \<open>removeResult\<close> is \<open>None\<close> when \<^verbatim>\<open>removeContainer\<close> resolves and the error it throws
  otherwise.
\<close>

record CloseWorld =
  removeResult :: "string option"
  doneReply :: "string option"

definition handlePRClosed :: "CloseWorld \<Rightarrow> StateManager \<Rightarrow> string \<Rightarrow> string \<Rightarrow> int \<Rightarrow> outcome" where
  "handlePRClosed w sm owner repo pr =
     (case find (\<lambda>i. prNumber i = Some pr) (getAllActive sm) of
        None \<Rightarrow> (sm, [], False)
      | Some issue \<Rightarrow>
          let farewell = PostIssueComment (JStr owner) (JStr repo) (issueNumber issue) (AgentCompleted pr);
              removed = removeIssue sm (repoOwner issue) (repoName issue) (issueNumber issue)
          in if containerId issue \<noteq> [] then
               (case removeResult w of
                  Some e \<Rightarrow> (sm, [RemoveContainer (containerId issue)], False)
                | None \<Rightarrow> (removed, [RemoveContainer (containerId issue), farewell], False))
             else (removed, [farewell], False))"

text \<open>
  \<^verbatim>\<open>
  private async handlePRReview(owner, repo, prNumber, review: any): Promise<void> {
    const issue = this.stateManager.getAllActive().find(i => i.prNumber === prNumber);
    if (!issue) { return; }
    if (review.state === 'CHANGES_REQUESTED') {
      this.stateManager.updateIssueStatus(owner, repo, issue.issueNumber, 'iterating');
      await this.githubClient.postIssueComment(owner, repo, issue.issueNumber, `... ${review.body} ...`);
    }
  }
  \<close>
\<close>

record ReviewWorld =
  clockReview :: int
  feedbackReply :: "string option"

definition handlePRReview ::
  "ReviewWorld \<Rightarrow> StateManager \<Rightarrow> string \<Rightarrow> string \<Rightarrow> int \<Rightarrow> string \<Rightarrow> string \<Rightarrow> outcome" where
  "handlePRReview w sm owner repo pr reviewState reviewBody =
     (case find (\<lambda>i. prNumber i = Some pr) (getAllActive sm) of
        None \<Rightarrow> (sm, [], False)
      | Some issue \<Rightarrow>
          if reviewState = ''CHANGES_REQUESTED'' then
            (updateIssueStatus sm (JStr owner) (JStr repo) (issueNumber issue) Iterating None (clockReview w),
             [PostIssueComment (JStr owner) (JStr repo) (issueNumber issue) (FeedbackReceived reviewBody)],
             feedbackReply w \<noteq> None)
          else (sm, [], False))"

text \<open>
  The body of the health-check timer (\<^verbatim>\<open>startHealthCheckLoop\<close>, every 30 seconds):
  \<^verbatim>\<open>
  const staleIssues = this.stateManager.getStaleIssues();
  for (const issue of staleIssues) {
    try {
      const status = await this.containerManager.getContainerStatus(issue.containerId);
      if (status === 'exited' || status === 'dead') {
        this.stateManager.updateIssueStatus(issue.repoOwner, issue.repoName, issue.issueNumber,
          'error', `Container terminated unexpectedly (status: ${status})`);
        const logs = await this.containerManager.getLogs(issue.containerId, 50);
        await this.githubClient.postIssueComment(issue.repoOwner, issue.repoName,
          issue.issueNumber, `... Container status: ${status} ...`);
      }
    } catch (error) { logger.error(...); }
  }
  \<close>
  \<^verbatim>\<open>getContainerStatus\<close> and \<^verbatim>\<open>getLogs\<close> catch their own errors (the former then returns
  \<^verbatim>\<open>'unknown'\<close>), so only the notification can throw, and that is caught. What the runtime
  answers for a unit, and the clock when its status is written, is its \<open>Probe\<close>.
\<close>

record Probe =
  containerStatus :: string
  containerLogs :: string
  notifyReply :: "string option"
  clockUpdate :: int

definition terminatedMessage :: "string \<Rightarrow> string" where
  "terminatedMessage st = ''Container terminated unexpectedly (status: '' @ st @ '')''"

definition healthCheckIssue ::
  "(ActiveIssue \<Rightarrow> Probe) \<Rightarrow> StateManager \<times> effect list \<Rightarrow> ActiveIssue \<Rightarrow> StateManager \<times> effect list" where
  "healthCheckIssue probe acc issue =
     (let sm = fst acc; effs = snd acc @ [GetContainerStatus (containerId issue)];
          st = containerStatus (probe issue)
      in if st = ''exited'' \<or> st = ''dead'' then
           (updateIssueStatus sm (repoOwner issue) (repoName issue) (issueNumber issue) Error
              (Some (terminatedMessage st)) (clockUpdate (probe issue)),
            effs @ [GetLogs (containerId issue) 50,
                    PostIssueComment (repoOwner issue) (repoName issue) (issueNumber issue)
                      (AgentStopped st)])
         else (sm, effs))"

definition healthCheck :: "int \<Rightarrow> (ActiveIssue \<Rightarrow> Probe) \<Rightarrow> StateManager \<Rightarrow> StateManager \<times> effect list" where
  "healthCheck now probe sm =
     foldl (healthCheckIssue probe) (sm, []) (getStaleIssues sm now defaultHeartbeatTimeoutMs)"

text \<open>The events the orchestrator processes, one at a time, each with the outside world it meets.\<close>

datatype event =
  IssueTriggered TriggerIssue jsval TriggerWorld
  | PRClosed string string int CloseWorld
  | PRReview string string int string string ReviewWorld
  | HealthCheck int "ActiveIssue \<Rightarrow> Probe"

fun processEvent :: "StateManager \<Rightarrow> event \<Rightarrow> StateManager" where
  "processEvent sm (IssueTriggered issue commentId w) = fst (handleIssueTriggered w sm issue commentId)"
| "processEvent sm (PRClosed owner repo pr w) = fst (handlePRClosed w sm owner repo pr)"
| "processEvent sm (PRReview owner repo pr st body w) = fst (handlePRReview w sm owner repo pr st body)"
| "processEvent sm (HealthCheck now probe) = fst (healthCheck now probe sm)"

definition processEvents :: "StateManager \<Rightarrow> event list \<Rightarrow> StateManager" where
  "processEvents sm evs = foldl processEvent sm evs"


section \<open>The status endpoint (class WebhookServer)\<close>

text \<open>
  \<^verbatim>\<open>
  this.app.post('/api/status', async (req, res) => {
    try {
      const statusUpdate = req.body;
      logger.info('Status update received', { containerId: statusUpdate.container_id,
        status: statusUpdate.status, message: statusUpdate.message });
      res.json({ received: true });
    } catch (error) {
      res.status(500).json({ error: 'Failed to process status' });
    }
  });
  \<close>
  The server holds no reference to the registry (its constructor takes the GitHub client,
  the configuration and the three event handlers), so the registry passes through
  untouched. A request without a parsed body makes the property reads throw.
\<close>

record StatusUpdate =
  su_container_id :: string
  su_status :: ActiveIssueStatus
  su_message :: string
  su_timestamp :: string

datatype http_response = Received | FailedToProcessStatus

definition apiStatus :: "StateManager \<Rightarrow> StatusUpdate option \<Rightarrow> StateManager \<times> http_response" where
  "apiStatus sm reqBody =
     (case reqBody of None \<Rightarrow> (sm, FailedToProcessStatus) | Some statusUpdate \<Rightarrow> (sm, Received))"


section \<open>The incremental event source (class GitHubPoller)\<close>

record RepoConfig =
  rc_owner :: string
  rc_name :: string
  triggerComment :: string
  enabled :: bool

text \<open>
  What the GitHub API answers, reduced to the fields that decide what the poller does. The
  handlers are callbacks handed to the poller; every item that can lead to a handler call
  carries the result of that call: \<open>True\<close> when the handler returns normally, \<open>False\<close>
  when it throws. A listing that is \<open>None\<close> is a request that throws.
\<close>

record NewIssue =
  ni_number :: int
  ni_pull_request :: bool
  ni_body :: "string option"
  ni_handlerOk :: bool

record Comment =
  comment_id :: int
  comment_login :: "string option"
  comment_body :: "string option"
  comment_handlerOk :: bool

record OpenIssue =
  oi_number :: int
  oi_pull_request :: bool
  oi_login :: "string option"
  oi_comments :: "Comment list option"

record Review =
  review_id :: int
  review_login :: "string option"
  review_state :: string
  review_handlerOk :: bool

record PullRequest =
  pr_number :: int
  pr_head_ref :: string
  pr_state :: string
  pr_reviews :: "Review list option"
  pr_closeHandlerOk :: bool

text \<open>
  The body of a response as parsed JSON, for the one response whose shape matters: objects
  and (integral) numbers. An object is the map of its member list (the first member of a
  name is the one it has). Reading a property that an object does not have, or any property
  of a number, gives \<^verbatim>\<open>undefined\<close>, here \<open>None\<close>; reading a property of \<^verbatim>\<open>undefined\<close> throws a
  TypeError.
\<close>

datatype json = JsonNumber int | JsonObject "(string \<times> json) list"

fun property :: "json \<Rightarrow> string \<Rightarrow> json option" where
  "property (JsonObject members) name = map_of members name"
| "property (JsonNumber n) name = None"

fun numberOf :: "json option \<Rightarrow> int option" where
  "numberOf (Some (JsonNumber n)) = Some n"
| "numberOf v = None"

text \<open>
  A quota as GitHub reports it, and the documented body of \<^verbatim>\<open>GET /rate_limit\<close>:
  \<^verbatim>\<open>{ "resources": { "core": { "limit": .., "used": .., "remaining": .., "reset": .. },
       "search": { .. }, .. }, "rate": { "limit": .., "used": .., "remaining": .., "reset": .. } }\<close>.
  The quota of the core API is the object \<^verbatim>\<open>resources.core\<close> itself; \<^verbatim>\<open>rate\<close> is a member of the
  body, next to \<^verbatim>\<open>resources\<close>. \<open>nestedRateBody\<close> is the shape \<^verbatim>\<open>checkRateLimit\<close> reads instead, with
  a member \<^verbatim>\<open>rate\<close> inside \<^verbatim>\<open>resources.core\<close>.
\<close>

record RateLimit =
  rate_limit :: int
  rate_used :: int
  rate_remaining :: int
  rate_reset :: int

definition quotaObject :: "RateLimit \<Rightarrow> json" where
  "quotaObject q =
     JsonObject [(''limit'', JsonNumber (rate_limit q)), (''used'', JsonNumber (rate_used q)),
                 (''remaining'', JsonNumber (rate_remaining q)), (''reset'', JsonNumber (rate_reset q))]"

definition rateLimitOverview :: "RateLimit \<Rightarrow> (string \<times> json) list \<Rightarrow> RateLimit \<Rightarrow> json" where
  "rateLimitOverview core otherResources rate =
     JsonObject [(''resources'', JsonObject ((''core'', quotaObject core) # otherResources)),
                 (''rate'', quotaObject rate)]"

definition nestedRateBody :: "RateLimit \<Rightarrow> json" where
  "nestedRateBody q =
     JsonObject [(''resources'', JsonObject [(''core'', JsonObject [(''rate'', quotaObject q)])])]"

record RepoResponses =
  clockBeforeIssues :: int
  newIssuesResponse :: "(int \<times> NewIssue list) option"
  openIssuesResponse :: "OpenIssue list option"
  pullsResponse :: "PullRequest list option"

text \<open>The requests the poller sends and the handler calls it makes (the events it emits).\<close>

datatype poll_call =
  GetRateLimit
  | ListIssuesSince string string int
  | ListOpenIssues string string
  | ListComments string string int "int option"
  | ListPulls string string
  | ListReviews string string int
  | OnIssueTriggered string string int string
  | OnPRClosed string string int
  | OnPRReview string string int int string

text \<open>
  \<^verbatim>\<open>interface PollState\<close> (the watermark set), the two rate-limit fields of the class, and the
  calls made so far. \<^verbatim>\<open>rateLimitRemaining\<close> holds whatever \<^verbatim>\<open>rate.remaining\<close> read (\<open>None\<close> for
  \<^verbatim>\<open>undefined\<close>); \<^verbatim>\<open>rateLimitReset\<close> is a \<^verbatim>\<open>Date\<close>, in milliseconds, \<open>None\<close> for an invalid date.
  The class initialises them with \<^verbatim>\<open>5000\<close> and \<^verbatim>\<open>new Date()\<close>, the clock at construction.
\<close>

record Poller =
  lastIssueCheck :: "string \<rightharpoonup> int"
  lastCommentCheck :: "string \<rightharpoonup> (int \<rightharpoonup> int)"
  knownPRs :: "string set"
  knownReviews :: "string \<rightharpoonup> int"
  rateLimitRemaining :: "json option"
  rateLimitReset :: "int option"
  calls :: "poll_call list"

definition newPoller :: "int \<Rightarrow> Poller" where
  "newPoller now = \<lparr>lastIssueCheck = Map.empty, lastCommentCheck = Map.empty, knownPRs = {},
                     knownReviews = Map.empty, rateLimitRemaining = Some (JsonNumber 5000),
                     rateLimitReset = Some now, calls = []\<rparr>"

definition call :: "poll_call \<Rightarrow> Poller \<Rightarrow> Poller" where
  "call c P = P\<lparr>calls := calls P @ [c]\<rparr>"

definition repoKeyOf :: "RepoConfig \<Rightarrow> string" where
  "repoKeyOf repo = rc_owner repo @ ''/'' @ rc_name repo"

definition prKeyOf :: "RepoConfig \<Rightarrow> int \<Rightarrow> string" where
  "prKeyOf repo pr = repoKeyOf repo @ ''#'' @ js_number_to_string pr"

text \<open>
  \<^verbatim>\<open>
  private isTriggerComment(body: string, repo: RepoConfig): boolean {
    return body.toLowerCase().includes(repo.triggerComment.toLowerCase());
  }
  private isBotUser(login?: string): boolean {
    if (!login) return true;
    const botPatterns = ['[bot]', '-bot', 'bot', 'agent', 'ai-agent'];
    return botPatterns.some(p => login.toLowerCase().endsWith(p));
  }
  \<close>
  The callers pass \<^verbatim>\<open>body || ''\<close>.
\<close>

definition isTriggerComment :: "string option \<Rightarrow> RepoConfig \<Rightarrow> bool" where
  "isTriggerComment body repo =
     includesStr (toLowerCase (case body of None \<Rightarrow> [] | Some b \<Rightarrow> b))
       (toLowerCase (triggerComment repo))"

definition isBotUser :: "string option \<Rightarrow> bool" where
  "isBotUser login =
     (case login of
        None \<Rightarrow> True
      | Some l \<Rightarrow> l = [] \<or>
          list_ex (endsWith (toLowerCase l)) [''[bot]'', ''-bot'', ''bot'', ''agent'', ''ai-agent''])"

text \<open>
  \<^verbatim>\<open>
  private async checkRateLimit(): Promise<boolean> {
    try {
      const response = await this.octokit.request('GET /rate_limit');
      const { rate } = response.data.resources.core;
      this.rateLimitRemaining = rate.remaining;
      this.rateLimitReset = new Date(rate.reset * 1000);
      if (this.rateLimitRemaining % 500 === 0 || this.rateLimitRemaining < 1000) {
        logger.info(`... resets at ${this.rateLimitReset.toISOString()}`);
      }
      if (rate.remaining < rate.limit * 0.1) {
        logger.warn(`... pausing until ${this.rateLimitReset.toISOString()}`);
        return false;
      }
      return true;
    } catch (error) {
      return true;   // fail open
    }
  }
  \<close>
  The argument is \<^verbatim>\<open>response.data\<close>, or \<open>None\<close> when the request throws. Every TypeError on
  the way to \<^verbatim>\<open>rate.remaining\<close> (no \<^verbatim>\<open>resources\<close>, no \<^verbatim>\<open>core\<close>, no \<^verbatim>\<open>rate\<close> in it) is
  raised inside the \<^verbatim>\<open>try\<close>, before either field is written. \<^verbatim>\<open>new Date(x)\<close> is an invalid
  date for \<open>x\<close> outside \<open>\<plusminus>8.64e15\<close> milliseconds and for \<^verbatim>\<open>NaN\<close>, \<^verbatim>\<open>toISOString\<close> throws a
  RangeError on an invalid date, and the \<^verbatim>\<open>catch\<close> turns that into \<^verbatim>\<open>true\<close> as well. A
  comparison or a remainder with a value that is not a number is false. For integral quota
  values (of magnitude below \<open>2\<^sup>5\<^sup>2\<close>) the comparison with the double \<^verbatim>\<open>rate.limit * 0.1\<close> is
  the comparison \<open>10 * remaining < limit\<close>: the product is rounded to the nearest double,
  which is exactly a tenth of the limit when that is an integer and lies strictly between
  the neighbouring integers otherwise.
\<close>

definition validDate :: "int \<Rightarrow> bool" where
  "validDate ms = (- 8640000000000000 \<le> ms \<and> ms \<le> 8640000000000000)"

definition newDate :: "int option \<Rightarrow> int option" where
  "newDate ms = (case ms of None \<Rightarrow> None | Some t \<Rightarrow> if validDate t then Some t else None)"

definition checkRateLimit :: "json option \<Rightarrow> Poller \<Rightarrow> Poller \<times> bool" where
  "checkRateLimit response P =
     (let P0 = call GetRateLimit P in
      case response of
        None \<Rightarrow> (P0, True)
      | Some data \<Rightarrow>
          (case property data ''resources'' of
             None \<Rightarrow> (P0, True)
           | Some resources \<Rightarrow>
               (case property resources ''core'' of
                  None \<Rightarrow> (P0, True)
                | Some core \<Rightarrow>
                    (case property core ''rate'' of
                       None \<Rightarrow> (P0, True)
                     | Some rate \<Rightarrow>
                         let remaining = numberOf (property rate ''remaining'');
                             limit = numberOf (property rate ''limit'');
                             reset = newDate (map_option (\<lambda>t. t * 1000) (numberOf (property rate ''reset'')));
                             P1 = P0\<lparr>rateLimitRemaining := property rate ''remaining'',
                                      rateLimitReset := reset\<rparr>;
                             logged = (case remaining of
                                         None \<Rightarrow> False
                                       | Some n \<Rightarrow> n mod 500 = 0 \<or> n < 1000);
                             low = (case (remaining, limit) of
                                      (Some n, Some l) \<Rightarrow> 10 * n < l
                                    | _ \<Rightarrow> False)
                         in if logged \<and> reset = None then (P1, True)
                            else if low then (if reset = None then (P1, True) else (P1, False))
                            else (P1, True)))))"

text \<open>
  \<^verbatim>\<open>pollNewIssues\<close>: the loop over the listing stops at the first handler that throws; the
  \<^verbatim>\<open>catch\<close> around the whole body then skips \<^verbatim>\<open>this.state.lastIssueCheck.set(repoKey, now)\<close>.
  \<^verbatim>\<open>
  const since = this.state.lastIssueCheck.get(repoKey) || Date.now() - 24 * 60 * 60 * 1000;
  try {
    const response = await this.octokit.rest.issues.listForRepo({ ..., since, ... });
    const now = Date.now();
    for (const issue of response.data) {
      if (issue.pull_request) { continue; }
      if (this.isTriggerComment(issue.body || '', repo)) {
        await this.handlers.onIssueTriggered(repo.owner, repo.name, issue.number, repo.triggerComment);
      }
      if (!this.state.lastCommentCheck.has(repoKey)) {
        this.state.lastCommentCheck.set(repoKey, new Map());
      }
    }
    this.state.lastIssueCheck.set(repoKey, now);
  } catch (error) { logger.error(...); }
  \<close>
\<close>

fun newIssuesLoop :: "RepoConfig \<Rightarrow> NewIssue list \<Rightarrow> Poller \<Rightarrow> Poller \<times> bool" where
  "newIssuesLoop repo [] P = (P, True)"
| "newIssuesLoop repo (issue # rest) P =
     (if ni_pull_request issue then newIssuesLoop repo rest P
      else
        let P1 = (if isTriggerComment (ni_body issue) repo
                  then call (OnIssueTriggered (rc_owner repo) (rc_name repo) (ni_number issue)
                               (triggerComment repo)) P
                  else P)
        in if isTriggerComment (ni_body issue) repo \<and> \<not> ni_handlerOk issue then (P1, False)
           else newIssuesLoop repo rest
                  (if lastCommentCheck P1 (repoKeyOf repo) = None
                   then P1\<lparr>lastCommentCheck := (lastCommentCheck P1)(repoKeyOf repo \<mapsto> Map.empty)\<rparr>
                   else P1))"

definition pollNewIssues :: "RepoConfig \<Rightarrow> int \<Rightarrow> (int \<times> NewIssue list) option \<Rightarrow> Poller \<Rightarrow> Poller" where
  "pollNewIssues repo clock response P =
     (let since = (case lastIssueCheck P (repoKeyOf repo) of
                     None \<Rightarrow> clock - 24 * 60 * 60 * 1000
                   | Some t \<Rightarrow> if t = 0 then clock - 24 * 60 * 60 * 1000 else t);
          P1 = call (ListIssuesSince (rc_owner repo) (rc_name repo) since) P
      in case response of
           None \<Rightarrow> P1
         | Some (now, issues) \<Rightarrow>
             (case newIssuesLoop repo issues P1 of
                (P2, ok) \<Rightarrow>
                  if ok then P2\<lparr>lastIssueCheck := (lastIssueCheck P2)(repoKeyOf repo \<mapsto> now)\<rparr>
                  else P2))"

text \<open>
  \<^verbatim>\<open>pollIssueComments\<close>. The inner \<^verbatim>\<open>try\<close> covers the comment request, the loop over the
  comments and the watermark update of one issue:
  \<^verbatim>\<open>
  const repoCommentState = this.state.lastCommentCheck.get(repoKey) || new Map();
  try {
    const issuesResponse = await this.octokit.rest.issues.listForRepo({ ..., state: 'open' });
    for (const issue of issuesResponse.data) {
      if (issue.pull_request) continue;
      if (this.isBotUser(issue.user?.login)) continue;
      const lastCommentId = repoCommentState.get(issue.number) || 0;
      try {
        const commentsResponse = await this.octokit.rest.issues.listComments({ ...,
          since: lastCommentId > 0 ? new Date(lastCommentId).toISOString() : undefined });
        for (const comment of commentsResponse.data) {
          if (comment.id <= lastCommentId) continue;
          if (this.isBotUser(comment.user?.login)) continue;
          if (this.isTriggerComment(comment.body || '', repo)) {
            await this.handlers.onIssueTriggered(repo.owner, repo.name, issue.number, repo.triggerComment);
          }
        }
        if (commentsResponse.data.length > 0) {
          const maxId = Math.max(...commentsResponse.data.map(c => c.id));
          repoCommentState.set(issue.number, maxId);
        }
      } catch (commentError) { logger.debug(...); }
    }
    this.state.lastCommentCheck.set(repoKey, repoCommentState);
  } catch (error) { logger.error(...); }
  \<close>
  \<^verbatim>\<open>new Date(lastCommentId).toISOString()\<close> throws inside the inner \<^verbatim>\<open>try\<close> when the stored id
  is not a valid date in milliseconds; the request is then not sent.
\<close>

fun commentLoop :: "RepoConfig \<Rightarrow> int \<Rightarrow> int \<Rightarrow> Comment list \<Rightarrow> Poller \<Rightarrow> Poller \<times> bool" where
  "commentLoop repo num lastCommentId [] P = (P, True)"
| "commentLoop repo num lastCommentId (comment # rest) P =
     (if comment_id comment \<le> lastCommentId then commentLoop repo num lastCommentId rest P
      else if isBotUser (comment_login comment) then commentLoop repo num lastCommentId rest P
      else if isTriggerComment (comment_body comment) repo then
        (let P1 = call (OnIssueTriggered (rc_owner repo) (rc_name repo) num (triggerComment repo)) P
         in if comment_handlerOk comment then commentLoop repo num lastCommentId rest P1
            else (P1, False))
      else commentLoop repo num lastCommentId rest P)"

definition lastSeen :: "('k \<rightharpoonup> int) \<Rightarrow> 'k \<Rightarrow> int" where
  "lastSeen m k = (case m k of None \<Rightarrow> 0 | Some v \<Rightarrow> v)"

definition pollIssueCommentsIssue ::
  "RepoConfig \<Rightarrow> (int \<rightharpoonup> int) \<times> Poller \<Rightarrow> OpenIssue \<Rightarrow> (int \<rightharpoonup> int) \<times> Poller" where
  "pollIssueCommentsIssue repo acc issue =
     (let repoCommentState = fst acc; P = snd acc in
      if oi_pull_request issue then acc
      else if isBotUser (oi_login issue) then acc
      else
        let lastCommentId = lastSeen repoCommentState (oi_number issue);
            P1 = call (ListComments (rc_owner repo) (rc_name repo) (oi_number issue)
                         (if lastCommentId > 0 then Some lastCommentId else None)) P
        in if lastCommentId > 0 \<and> \<not> validDate lastCommentId then acc
           else case oi_comments issue of
             None \<Rightarrow> (repoCommentState, P1)
           | Some comments \<Rightarrow>
               (case commentLoop repo (oi_number issue) lastCommentId comments P1 of
                  (P2, ok) \<Rightarrow>
                    if ok then
                      (case map comment_id comments of
                         [] \<Rightarrow> (repoCommentState, P2)
                       | c # cs \<Rightarrow> (repoCommentState(oi_number issue \<mapsto> fold max cs c), P2))
                    else (repoCommentState, P2)))"

text \<open>\<^verbatim>\<open>this.state.lastCommentCheck.get(repoKey) || new Map()\<close>\<close>

definition commentWatermarks :: "Poller \<Rightarrow> RepoConfig \<Rightarrow> (int \<rightharpoonup> int)" where
  "commentWatermarks P repo =
     (case lastCommentCheck P (repoKeyOf repo) of None \<Rightarrow> Map.empty | Some m \<Rightarrow> m)"

definition pollIssueComments :: "RepoConfig \<Rightarrow> OpenIssue list option \<Rightarrow> Poller \<Rightarrow> Poller" where
  "pollIssueComments repo response P =
     (let repoCommentState = commentWatermarks P repo;
          P1 = call (ListOpenIssues (rc_owner repo) (rc_name repo)) P
      in case response of
           None \<Rightarrow> P1
         | Some issues \<Rightarrow>
             (case foldl (pollIssueCommentsIssue repo) (repoCommentState, P1) issues of
                (m, P2) \<Rightarrow> P2\<lparr>lastCommentCheck := (lastCommentCheck P2)(repoKeyOf repo \<mapsto> m)\<rparr>))"

text \<open>
  \<^verbatim>\<open>pollPRReviews\<close>: one \<^verbatim>\<open>try\<close> around the request, the loop and the watermark update.
  \<^verbatim>\<open>
  const lastReviewId = this.state.knownReviews.get(prKey) || 0;
  try {
    const reviewsResponse = await this.octokit.rest.pulls.listReviews({ ... });
    for (const review of reviewsResponse.data) {
      if (review.id <= lastReviewId) continue;
      if (this.isBotUser(review.user?.login)) continue;
      if (review.state === 'CHANGES_REQUESTED' || review.state === 'COMMENTED') {
        await this.handlers.onPRReview(repo.owner, repo.name, pr.number, { id: review.id, ... });
      }
    }
    if (reviewsResponse.data.length > 0) {
      const maxId = Math.max(...reviewsResponse.data.map(r => r.id));
      this.state.knownReviews.set(prKey, maxId);
    }
  } catch (error) { logger.error(...); }
  \<close>
\<close>

fun reviewLoop :: "RepoConfig \<Rightarrow> int \<Rightarrow> int \<Rightarrow> Review list \<Rightarrow> Poller \<Rightarrow> Poller \<times> bool" where
  "reviewLoop repo pr lastReviewId [] P = (P, True)"
| "reviewLoop repo pr lastReviewId (review # rest) P =
     (if review_id review \<le> lastReviewId then reviewLoop repo pr lastReviewId rest P
      else if isBotUser (review_login review) then reviewLoop repo pr lastReviewId rest P
      else if review_state review = ''CHANGES_REQUESTED'' \<or> review_state review = ''COMMENTED'' then
        (let P1 = call (OnPRReview (rc_owner repo) (rc_name repo) pr (review_id review)
                          (review_state review)) P
         in if review_handlerOk review then reviewLoop repo pr lastReviewId rest P1
            else (P1, False))
      else reviewLoop repo pr lastReviewId rest P)"

definition pollPRReviews :: "RepoConfig \<Rightarrow> PullRequest \<Rightarrow> Poller \<Rightarrow> Poller" where
  "pollPRReviews repo pr P =
     (let prKey = prKeyOf repo (pr_number pr);
          lastReviewId = lastSeen (knownReviews P) prKey;
          P1 = call (ListReviews (rc_owner repo) (rc_name repo) (pr_number pr)) P
      in case pr_reviews pr of
           None \<Rightarrow> P1
         | Some reviews \<Rightarrow>
             (case reviewLoop repo (pr_number pr) lastReviewId reviews P1 of
                (P2, ok) \<Rightarrow>
                  if ok then
                    (case map review_id reviews of
                       [] \<Rightarrow> P2
                     | r # rs \<Rightarrow> P2\<lparr>knownReviews := (knownReviews P2)(prKey \<mapsto> fold max rs r)\<rparr>)
                  else P2))"

text \<open>
  \<^verbatim>\<open>pollOurPRs\<close>: a closure handler that throws leaves the loop through the outer
  \<^verbatim>\<open>catch\<close>, before the two deletions.
  \<^verbatim>\<open>
  try {
    const response = await this.octokit.rest.pulls.list({ ..., state: 'open', ... });
    for (const pr of response.data) {
      if (!pr.head.ref.startsWith('ai-agent-issue-')) { continue; }
      const prKey = `${repoKey}#${pr.number}`;
      this.state.knownPRs.add(prKey);
      await this.pollPRReviews(repo, pr);
      if (pr.state === 'closed') {
        await this.handlers.onPRClosed(repo.owner, repo.name, pr.number);
        this.state.knownPRs.delete(prKey);
        this.state.knownReviews.delete(prKey);
      }
    }
  } catch (error) { logger.error(...); }
  \<close>
\<close>

fun pullsLoop :: "RepoConfig \<Rightarrow> PullRequest list \<Rightarrow> Poller \<Rightarrow> Poller" where
  "pullsLoop repo [] P = P"
| "pullsLoop repo (pr # rest) P =
     (if \<not> startsWith (pr_head_ref pr) ''ai-agent-issue-'' then pullsLoop repo rest P
      else
        let prKey = prKeyOf repo (pr_number pr);
            P1 = pollPRReviews repo pr (P\<lparr>knownPRs := insert prKey (knownPRs P)\<rparr>)
        in if pr_state pr = ''closed'' then
             (let P2 = call (OnPRClosed (rc_owner repo) (rc_name repo) (pr_number pr)) P1
              in if pr_closeHandlerOk pr then
                   pullsLoop repo rest
                     (P2\<lparr>knownPRs := knownPRs P2 - {prKey},
                         knownReviews := (knownReviews P2)(prKey := None)\<rparr>)
                 else P2)
           else pullsLoop repo rest P1)"

definition pollOurPRs :: "RepoConfig \<Rightarrow> PullRequest list option \<Rightarrow> Poller \<Rightarrow> Poller" where
  "pollOurPRs repo response P =
     (let P1 = call (ListPulls (rc_owner repo) (rc_name repo)) P
      in case response of None \<Rightarrow> P1 | Some prs \<Rightarrow> pullsLoop repo prs P1)"

text \<open>\<^verbatim>\<open>pollRepo\<close>: new issues, then comments on open issues, then the agent's pull requests.\<close>

definition pollRepo :: "RepoConfig \<Rightarrow> RepoResponses \<Rightarrow> Poller \<Rightarrow> Poller" where
  "pollRepo repo r P =
     pollOurPRs repo (pullsResponse r)
       (pollIssueComments repo (openIssuesResponse r)
          (pollNewIssues repo (clockBeforeIssues r) (newIssuesResponse r) P))"

text \<open>
  \<^verbatim>\<open>
  private async pollAll(): Promise<void> {
    if (!await this.checkRateLimit()) { return; }
    const enabledRepos = this.config.repos.filter(r => r.enabled);
    for (const repo of enabledRepos) {
      try { await this.pollRepo(repo); } catch (error) { logger.error(...); }
    }
  }
  \<close>
  The configured repositories come paired with what the API answers for each in this cycle.
\<close>

definition pollAll :: "json option \<Rightarrow> (RepoConfig \<times> RepoResponses) list \<Rightarrow> Poller \<Rightarrow> Poller" where
  "pollAll rateResponse repos P =
     (case checkRateLimit rateResponse P of
        (P1, proceed) \<Rightarrow>
          if \<not> proceed then P1
          else foldl (\<lambda>Q (repo, r). pollRepo repo r Q) P1 (filter (\<lambda>(repo, r). enabled repo) repos))"


section \<open>Auxiliary notions used in the statements\<close>

text \<open>
  A registry is well formed when every unit sits under its own key and no key occurs
  twice. \<^verbatim>\<open>registerIssue\<close> is the only method that adds an entry, and it files the unit
  under the key of its own fields, so every registry built by the orchestrator is well
  formed.
\<close>

definition wfRegistry :: "StateManager \<Rightarrow> bool" where
  "wfRegistry sm =
     (distinct (map fst (activeIssues sm))
      \<and> (\<forall>(k, issue) \<in> set (activeIssues sm). k = issueKeyOf issue))"

text \<open>
  What admission keeps true of a registry: it is empty, or it got its last unit when its
  size, one less than now, was strictly below \<^verbatim>\<open>maxConcurrent\<close>.
\<close>

definition withinLimit :: "StateManager \<Rightarrow> bool" where
  "withinLimit sm =
     (activeIssues sm = []
      \<or> number_less (Finite (of_nat (length (activeIssues sm) - 1))) (maxConcurrent sm))"

text \<open>No unit of the registry carries the number of a pull request.\<close>

definition noPR :: "StateManager \<Rightarrow> bool" where
  "noPR sm = list_all (\<lambda>u. prNumber u = None) (getAllActive sm)"


text \<open>The external notifications about a unit: the comments posted on its issue.\<close>

fun isNotificationFor :: "ActiveIssue \<Rightarrow> effect \<Rightarrow> bool" where
  "isNotificationFor issue (PostIssueComment owner repo num reply) =
     (owner = repoOwner issue \<and> repo = repoName issue \<and> num = issueNumber issue)"
| "isNotificationFor issue e = False"

definition reportsDead :: "(ActiveIssue \<Rightarrow> Probe) \<Rightarrow> ActiveIssue \<Rightarrow> bool" where
  "reportsDead probe issue =
     (containerStatus (probe issue) = ''exited'' \<or> containerStatus (probe issue) = ''dead'')"

text \<open>The comments of a batch whose handler call, if one is made, returns normally.\<close>

definition commentsHandled :: "RepoConfig \<Rightarrow> int \<Rightarrow> Comment list \<Rightarrow> bool" where
  "commentsHandled repo lastCommentId comments =
     list_all (\<lambda>c. comment_handlerOk c \<or> comment_id c \<le> lastCommentId
                  \<or> isBotUser (comment_login c) \<or> \<not> isTriggerComment (comment_body c) repo) comments"

definition reviewsHandled :: "int \<Rightarrow> Review list \<Rightarrow> bool" where
  "reviewsHandled lastReviewId reviews =
     list_all (\<lambda>r. review_handlerOk r \<or> review_id r \<le> lastReviewId
                  \<or> isBotUser (review_login r)
                  \<or> (review_state r \<noteq> ''CHANGES_REQUESTED'' \<and> review_state r \<noteq> ''COMMENTED'')) reviews"

definition newIssuesHandled :: "RepoConfig \<Rightarrow> NewIssue list \<Rightarrow> bool" where
  "newIssuesHandled repo issues =
     list_all (\<lambda>i. ni_handlerOk i \<or> ni_pull_request i \<or> \<not> isTriggerComment (ni_body i) repo) issues"

text \<open>
  The batch of comments the poller consumes in full for an open issue, if there is one:
  the issue is not skipped, the request is sent and answered with a non-empty list, and no
  handler throws while the list is processed. Likewise for the reviews of a pull request.
\<close>

definition commentBatch :: "RepoConfig \<Rightarrow> (int \<rightharpoonup> int) \<Rightarrow> OpenIssue \<Rightarrow> Comment list option" where
  "commentBatch repo m issue =
     (let lastCommentId = lastSeen m (oi_number issue) in
      if oi_pull_request issue \<or> isBotUser (oi_login issue)
         \<or> (lastCommentId > 0 \<and> \<not> validDate lastCommentId) then None
      else case oi_comments issue of
             None \<Rightarrow> None
           | Some comments \<Rightarrow>
               if comments \<noteq> [] \<and> commentsHandled repo lastCommentId comments then Some comments
               else None)"

definition reviewBatch :: "RepoConfig \<Rightarrow> Poller \<Rightarrow> PullRequest \<Rightarrow> Review list option" where
  "reviewBatch repo P pr =
     (case pr_reviews pr of
        None \<Rightarrow> None
      | Some reviews \<Rightarrow>
          if reviews \<noteq> []
             \<and> reviewsHandled (lastSeen (knownReviews P) (prKeyOf repo (pr_number pr))) reviews
          then Some reviews else None)"

definition isAgentPR :: "PullRequest \<Rightarrow> bool" where
  "isAgentPR pr = startsWith (pr_head_ref pr) ''ai-agent-issue-''"


section \<open>Example values\<close>

definition calmWorld :: TriggerWorld where
  "calmWorld = \<lparr>clockBranch = 1700000000000, clockStarted = 1700000000000, rejectReply = None,
                 startReply = None, dockerStart = Inr ''c1'', failReply = None\<rparr>"

definition issue7 :: TriggerIssue where
  "issue7 = webhookTrigger ''acme'' ''app'' 7 ''Crash on start'' ''@agent please fix''"

definition issue8 :: TriggerIssue where
  "issue8 = webhookTrigger ''acme'' ''app'' 8 ''Typo'' ''@agent please fix''"

definition unit7 :: ActiveIssue where
  "unit7 = \<lparr>repoOwner = JStr ''acme'', repoName = JStr ''app'', issueNumber = JNum 7,
             issueTitle = JStr ''Crash on start'', issueBody = JStr ''@agent please fix'',
             containerId = ''c1'', containerName = ''agent-acme-app-issue-7'', status = Starting,
             branchName = ''ai-agent-issue-7-1700000000000'', prNumber = None,
             startedAt = 1700000000000, lastHeartbeat = None, error = None\<rparr>"

definition oneSlotBusy :: StateManager where
  "oneSlotBusy = \<lparr>activeIssues = [(''acme/app#7'', unit7)], maxConcurrent = Finite 1\<rparr>"



definition unit7Retitled :: ActiveIssue where
  "unit7Retitled = unit7\<lparr>issueTitle := JStr ''Crash on start (again)'', containerId := ''c2''\<rparr>"

definition unit7Upper :: ActiveIssue where
  "unit7Upper = unit7\<lparr>repoOwner := JStr ''Acme''\<rparr>"

definition exitedProbe :: "ActiveIssue \<Rightarrow> Probe" where
  "exitedProbe issue = \<lparr>containerStatus = ''exited'', containerLogs = ''Killed'',
                          notifyReply = None, clockUpdate = 1700000660000\<rparr>"

definition trackedPR :: StateManager where
  "trackedPR = setPRNumber oneSlotBusy (JStr ''acme'') (JStr ''app'') (JNum 7) 12"

definition removalWorks :: CloseWorld where
  "removalWorks = \<lparr>removeResult = None, doneReply = None\<rparr>"

definition acmeApp :: RepoConfig where
  "acmeApp = \<lparr>rc_owner = ''acme'', rc_name = ''app'', triggerComment = ''@agent'', enabled = True\<rparr>"

definition closedPR12 :: PullRequest where
  "closedPR12 = \<lparr>pr_number = 12, pr_head_ref = ''ai-agent-issue-7-1700000000000'',
                  pr_state = ''closed'', pr_reviews = Some [], pr_closeHandlerOk = True\<rparr>"

definition freshPoller :: Poller where
  "freshPoller = newPoller 1700000000000"

definition pollerTracking12 :: Poller where
  "pollerTracking12 = freshPoller\<lparr>knownPRs := {''acme/app#12''},
                                   knownReviews := [''acme/app#12'' \<mapsto> 500]\<rparr>"

definition exhaustedQuota :: RateLimit where
  "exhaustedQuota = \<lparr>rate_limit = 5000, rate_used = 5000, rate_remaining = 0, rate_reset = 1700003600\<rparr>"

definition lowQuota :: RateLimit where
  "lowQuota = \<lparr>rate_limit = 5000, rate_used = 4501, rate_remaining = 499, rate_reset = 1700003600\<rparr>"

definition tenthQuota :: RateLimit where
  "tenthQuota = \<lparr>rate_limit = 5000, rate_used = 4500, rate_remaining = 500, rate_reset = 1700003600\<rparr>"

definition searchQuota :: "(string \<times> json) list" where
  "searchQuota =
     [(''search'', quotaObject \<lparr>rate_limit = 30, rate_used = 0, rate_remaining = 30,
                                  rate_reset = 1700000060\<rparr>)]"

definition silentApi :: RepoResponses where
  "silentApi = \<lparr>clockBeforeIssues = 1700000000000, newIssuesResponse = None,
                 openIssuesResponse = None, pullsResponse = None\<rparr>"

definition comment101 :: Comment where
  "comment101 = \<lparr>comment_id = 101, comment_login = Some ''alice'',
                  comment_body = Some ''Seen on main as well'', comment_handlerOk = True\<rparr>"

definition comment102 :: Comment where
  "comment102 = \<lparr>comment_id = 102, comment_login = Some ''bob'',
                  comment_body = Some ''@agent please fix'', comment_handlerOk = True\<rparr>"

definition comment103 :: Comment where
  "comment103 = \<lparr>comment_id = 103, comment_login = Some ''dependabot[bot]'',
                  comment_body = Some ''Bump version'', comment_handlerOk = True\<rparr>"

definition openIssue7 :: OpenIssue where
  "openIssue7 = \<lparr>oi_number = 7, oi_pull_request = False, oi_login = Some ''alice'',
                  oi_comments = Some [comment101, comment102, comment103]\<rparr>"

definition openIssue7Shrunk :: OpenIssue where
  "openIssue7Shrunk = openIssue7\<lparr>oi_comments := Some [comment101, comment102]\<rparr>"

definition openIssue9 :: OpenIssue where
  "openIssue9 = \<lparr>oi_number = 9, oi_pull_request = False, oi_login = Some ''carol'',
                  oi_comments = None\<rparr>"

definition pollerAt :: "int \<Rightarrow> Poller" where
  "pollerAt w = freshPoller\<lparr>lastCommentCheck := [''acme/app'' \<mapsto> [7 \<mapsto> w, 9 \<mapsto> 90]]\<rparr>"

definition review601 :: Review where
  "review601 = \<lparr>review_id = 601, review_login = Some ''alice'',
                 review_state = ''CHANGES_REQUESTED'', review_handlerOk = True\<rparr>"

definition openPR11 :: PullRequest where
  "openPR11 = \<lparr>pr_number = 11, pr_head_ref = ''ai-agent-issue-5-1699990000000'',
                pr_state = ''open'', pr_reviews = Some [review601], pr_closeHandlerOk = True\<rparr>"

definition pollerAhead11 :: Poller where
  "pollerAhead11 = freshPoller\<lparr>knownPRs := {''acme/app#11''},
                                knownReviews := [''acme/app#11'' \<mapsto> 700]\<rparr>"

definition foreignPR13 :: PullRequest where
  "foreignPR13 = \<lparr>pr_number = 13, pr_head_ref = ''feature/login'',
                   pr_state = ''closed'', pr_reviews = None, pr_closeHandlerOk = False\<rparr>"

definition newIssue7 :: NewIssue where
  "newIssue7 = \<lparr>ni_number = 7, ni_pull_request = False, ni_body = Some ''@agent please fix'',
                 ni_handlerOk = True\<rparr>"

section \<open>Decimal rendering is injective\<close>

lemma digit_char_inj:
  assumes "a < 10" and "b < 10" and "''0123456789'' ! a = ''0123456789'' ! b"
  shows "a = b"
proof -
  have d: "distinct ''0123456789''" by simp
  have "a < length ''0123456789''" "b < length ''0123456789''" using assms by simp_all
  with d assms(3) show ?thesis by (simp only: nth_eq_iff_index_eq)
qed

lemma digits_nonempty: "digits n \<noteq> []"
  by (subst digits.simps) simp

lemma digits_last: "last (digits n) = ''0123456789'' ! (n mod 10)"
  by (subst digits.simps) simp

lemma digits_butlast: "butlast (digits n) = (if n < 10 then [] else digits (n div 10))"
  by (subst digits.simps) simp

lemma digits_inj: "digits n = digits m \<Longrightarrow> n = m"
proof (induction n arbitrary: m rule: less_induct)
  case (less n)
  from less.prems have l: "''0123456789'' ! (n mod 10) = ''0123456789'' ! (m mod 10)"
    using digits_last by metis
  then have md: "n mod 10 = m mod 10" by (intro digit_char_inj) simp_all
  from less.prems have b: "butlast (digits n) = butlast (digits m)" by simp
  show ?case
  proof (cases "n < 10")
    case True
    with b have "m < 10" using digits_butlast [of m] digits_butlast [of n] digits_nonempty [of "m div 10"]
      by (auto split: if_splits)
    with True md show ?thesis by simp
  next
    case False
    with b have m: "\<not> m < 10" using digits_butlast [of m] digits_butlast [of n] digits_nonempty [of "n div 10"]
      by (auto split: if_splits)
    with False b have "digits (n div 10) = digits (m div 10)" by (simp add: digits_butlast)
    moreover from False have "n div 10 < n" by simp
    ultimately have "n div 10 = m div 10" using less.IH by blast
    with md show ?thesis by (metis div_mult_mod_eq)
  qed
qed

lemma digits_chars: "set (digits n) \<subseteq> set ''0123456789''"
proof (induction n rule: less_induct)
  case (less n)
  show ?case
  proof (cases "n < 10")
    case True
    then have "''0123456789'' ! n \<in> set ''0123456789''" by (intro nth_mem) simp
    with True show ?thesis by (subst digits.simps) simp
  next
    case False
    then have "n div 10 < n" by simp
    from less.IH [OF this] have ih: "set (digits (n div 10)) \<subseteq> set ''0123456789''" .
    have "''0123456789'' ! (n mod 10) \<in> set ''0123456789''" by (intro nth_mem) simp
    with False ih show ?thesis by (subst digits.simps) simp
  qed
qed

lemma digits_no_minus: "hd (digits n) \<noteq> CHR ''-''"
proof -
  have "hd (digits n) \<in> set (digits n)" using digits_nonempty by simp
  with digits_chars have "hd (digits n) \<in> set ''0123456789''" by blast
  then show ?thesis by auto
qed

lemma js_number_to_string_inj: "js_number_to_string n = js_number_to_string m \<Longrightarrow> n = m"
proof -
  assume eq: "js_number_to_string n = js_number_to_string m"
  have neg: "CHR ''-'' # digits a \<noteq> digits b" for a b
    using digits_no_minus [of b] by (metis list.sel(1))
  consider "n < 0" "m < 0" | "n < 0" "\<not> m < 0" | "\<not> n < 0" "m < 0" | "\<not> n < 0" "\<not> m < 0" by blast
  then show "n = m"
  proof cases
    case 1
    with eq have "digits (nat (- n)) = digits (nat (- m))" by (simp add: js_number_to_string_def)
    then have "nat (- n) = nat (- m)" by (rule digits_inj)
    with 1 show ?thesis by simp
  next
    case 2
    with eq neg show ?thesis by (simp add: js_number_to_string_def)
  next
    case 3
    with eq neg [of "nat (- m)" "nat n"] show ?thesis by (simp add: js_number_to_string_def)
  next
    case 4
    with eq have "digits (nat n) = digits (nat m)" by (simp add: js_number_to_string_def)
    then have "nat n = nat m" by (rule digits_inj)
    with 4 show ?thesis by simp
  qed
qed

lemma prKeyOf_inj: "prKeyOf repo n = prKeyOf repo m \<Longrightarrow> n = m"
  by (simp add: prKeyOf_def js_number_to_string_inj)


section \<open>Properties of the registry\<close>

lemma length_update_registry:
  "length (AList.update k v al) = (if map_of al k = None then Suc (length al) else length al)"
  by (induction al) auto

lemma length_delete_registry: "length (AList.delete k al) \<le> length al"
  by (induction al) auto

lemma length_map_entry_registry [simp]: "length (AList.map_entry k f al) = length al"
  by (induction al) auto

lemma maxConcurrent_simps [simp]:
  "maxConcurrent (registerIssue sm issue) = maxConcurrent sm"
  "maxConcurrent (removeIssue sm owner repo num) = maxConcurrent sm"
  "maxConcurrent (updateIssueStatus sm owner repo num st err now) = maxConcurrent sm"
  "maxConcurrent (newStateManager n) = n"
  by (simp_all add: registerIssue_def removeIssue_def updateIssueStatus_def newStateManager_def)

lemma length_updateIssueStatus [simp]:
  "length (activeIssues (updateIssueStatus sm owner repo num st err now)) = length (activeIssues sm)"
  by (simp add: updateIssueStatus_def)

lemma length_removeIssue:
  "length (activeIssues (removeIssue sm owner repo num)) \<le> length (activeIssues sm)"
  by (simp add: removeIssue_def length_delete_registry)

lemma length_toLowerCase [simp]: "length (toLowerCase s) = length s"
  by (simp add: toLowerCase_def)

lemma getIssue_updateIssueStatus:
  "getIssue (updateIssueStatus sm owner repo num st err now) owner' repo' num' =
     (if getIssueKey owner' repo' num' = getIssueKey owner repo num
      then map_option (applyStatus st err now) (getIssue sm owner repo num)
      else getIssue sm owner' repo' num')"
  by (simp add: getIssue_def updateIssueStatus_def AList.map_of_map_entry split: option.splits)

lemma applyStatus_fields [simp]:
  "status (applyStatus st err now issue) = st"
  "lastHeartbeat (applyStatus st err now issue) = Some now"
  "repoOwner (applyStatus st err now issue) = repoOwner issue"
  "repoName (applyStatus st err now issue) = repoName issue"
  "issueNumber (applyStatus st err now issue) = issueNumber issue"
  "prNumber (applyStatus st err now issue) = prNumber issue"
  "containerId (applyStatus st err now issue) = containerId issue"
  "startedAt (applyStatus st err now issue) = startedAt issue"
  by (simp_all add: applyStatus_def Let_def split: option.splits)

lemma getIssue_in_getAllActive:
  "getIssue sm owner repo num = Some issue \<Longrightarrow> issue \<in> set (getAllActive sm)"
  by (auto simp: getIssue_def getAllActive_def dest!: map_of_SomeD intro: rev_image_eqI)

text \<open>
  Two keys that agree up to the letter case of owner and repository are different strings
  unless owner and repository are the same.
\<close>

lemma issueKey_case_sensitive:
  assumes "toLowerCase o1 = toLowerCase o2" and "toLowerCase r1 = toLowerCase r2"
    and "getIssueKey (JStr o1) (JStr r1) n = getIssueKey (JStr o2) (JStr r2) n"
  shows "o1 = o2 \<and> r1 = r2"
proof -
  have lo: "length o1 = length o2" using assms(1) length_toLowerCase by metis
  have lr: "length r1 = length r2" using assms(2) length_toLowerCase by metis
  from assms(3)
  have "o1 @ (''/'' @ r1 @ ''#'' @ js_template n) = o2 @ (''/'' @ r2 @ ''#'' @ js_template n)"
    by (simp add: getIssueKey_def)
  with lo have o: "o1 = o2" and rest: "r1 @ (''#'' @ js_template n) = r2 @ (''#'' @ js_template n)"
    by auto
  from rest lr have "r1 = r2" by auto
  with o show ?thesis by simp
qed


section \<open>Admission control\<close>

lemmas registry_defs = handleIssueTriggered_def isIssueActive_def getIssue_def getIssueKey_def
  canStartNew_def getQueuePosition_def newActiveIssue_def startAgentContainer_def registerIssue_def
  issueKeyOf_def js_number_to_string_def digits.simps webhookTrigger_def newStateManager_def
  processEvents_def Let_def healthCheck_def healthCheckIssue_def getStaleIssues_def getAllActive_def
  isStale_def defaultHeartbeatTimeoutMs_def updateIssueStatus_def applyStatus_def
  terminatedMessage_def wfRegistry_def reportsDead_def handlePRClosed_def removeIssue_def
  setPRNumber_def

lemmas poller_defs = newPoller_def freshPoller_def pollOurPRs_def pollPRReviews_def prKeyOf_def repoKeyOf_def
  startsWith_def call_def lastSeen_def isAgentPR_def pollIssueComments_def
  pollIssueCommentsIssue_def commentWatermarks_def pollNewIssues_def pollRepo_def validDate_def
  commentBatch_def reviewBatch_def commentsHandled_def reviewsHandled_def newIssuesHandled_def
  js_number_to_string_def digits.simps

lemmas example_defs = calmWorld_def issue7_def issue8_def unit7_def oneSlotBusy_def acmeApp_def

lemma handleIssueTriggered_active:
  "isIssueActive sm (t_owner issue) (t_repo issue) (t_number issue) \<Longrightarrow>
   handleIssueTriggered w sm issue cid =
     (sm, [PostIssueComment (t_owner issue) (t_repo issue) (t_number issue) AlreadyHandled],
      rejectReply w \<noteq> None)"
  by (simp add: handleIssueTriggered_def)

lemma handleIssueTriggered_full:
  "\<not> isIssueActive sm (t_owner issue) (t_repo issue) (t_number issue) \<Longrightarrow> \<not> canStartNew sm \<Longrightarrow>
   handleIssueTriggered w sm issue cid =
     (sm, [PostIssueComment (t_owner issue) (t_repo issue) (t_number issue)
             (SlotsFull (getQueuePosition sm))],
      rejectReply w \<noteq> None)"
  by (simp add: handleIssueTriggered_def)

lemma handleIssueTriggered_registry:
  "fst (handleIssueTriggered w sm issue cid) = sm
   \<or> (canStartNew sm \<and> (\<exists>u. fst (handleIssueTriggered w sm issue cid) = registerIssue sm u))"
  by (auto simp: handleIssueTriggered_def Let_def split: option.splits sum.splits prod.splits)

lemma number_less_mono: "number_less (Finite a) m \<Longrightarrow> b \<le> a \<Longrightarrow> number_less (Finite b) m"
  by (cases m) simp_all

lemma withinLimit_shrink:
  assumes "withinLimit sm" and "length (activeIssues sm') \<le> length (activeIssues sm)"
    and "maxConcurrent sm' = maxConcurrent sm"
  shows "withinLimit sm'"
proof (cases "activeIssues sm' = []")
  case True
  then show ?thesis by (simp add: withinLimit_def)
next
  case False
  with assms(2) have "activeIssues sm \<noteq> []" by auto
  with assms(1) have l: "number_less (Finite (of_nat (length (activeIssues sm) - 1))) (maxConcurrent sm)"
    by (simp add: withinLimit_def)
  have "(of_nat (length (activeIssues sm') - 1) :: rat) \<le> of_nat (length (activeIssues sm) - 1)"
    using assms(2) by simp
  from number_less_mono [OF l this] assms(3) show ?thesis by (simp add: withinLimit_def)
qed

lemma withinLimit_registerIssue:
  assumes "canStartNew sm"
  shows "withinLimit (registerIssue sm u)"
proof -
  have "(of_nat (length (activeIssues (registerIssue sm u)) - 1) :: rat) \<le> of_nat (length (activeIssues sm))"
    by (simp add: registerIssue_def length_update_registry)
  from number_less_mono [OF _ this, of "maxConcurrent sm"] assms
  show ?thesis by (simp add: withinLimit_def canStartNew_def)
qed

lemma handleIssueTriggered_bound:
  assumes "withinLimit sm"
  shows "withinLimit (fst (handleIssueTriggered w sm issue cid))
         \<and> maxConcurrent (fst (handleIssueTriggered w sm issue cid)) = maxConcurrent sm"
  using handleIssueTriggered_registry [of w sm issue cid] assms withinLimit_registerIssue
  by auto

lemma handlePRClosed_bound:
  "length (activeIssues (fst (handlePRClosed w sm owner repo pr))) \<le> length (activeIssues sm)
   \<and> maxConcurrent (fst (handlePRClosed w sm owner repo pr)) = maxConcurrent sm"
  by (auto simp: handlePRClosed_def Let_def length_removeIssue split: option.splits)

lemma handlePRReview_bound:
  "length (activeIssues (fst (handlePRReview w sm owner repo pr st body))) = length (activeIssues sm)
   \<and> maxConcurrent (fst (handlePRReview w sm owner repo pr st body)) = maxConcurrent sm"
  by (auto simp: handlePRReview_def split: option.splits)

lemma healthCheckIssue_bound:
  "length (activeIssues (fst (healthCheckIssue probe acc issue))) = length (activeIssues (fst acc))
   \<and> maxConcurrent (fst (healthCheckIssue probe acc issue)) = maxConcurrent (fst acc)"
  by (simp add: healthCheckIssue_def Let_def)

lemma healthCheck_fold_bound:
  "length (activeIssues (fst (foldl (healthCheckIssue probe) acc xs))) = length (activeIssues (fst acc))
   \<and> maxConcurrent (fst (foldl (healthCheckIssue probe) acc xs)) = maxConcurrent (fst acc)"
  by (induction xs arbitrary: acc) (simp_all add: healthCheckIssue_bound)

lemma healthCheck_bound:
  "length (activeIssues (fst (healthCheck now probe sm))) = length (activeIssues sm)
   \<and> maxConcurrent (fst (healthCheck now probe sm)) = maxConcurrent sm"
  using healthCheck_fold_bound [of probe "(sm, [])"] by (simp add: healthCheck_def)

lemma processEvent_bound:
  assumes "withinLimit sm"
  shows "withinLimit (processEvent sm ev) \<and> maxConcurrent (processEvent sm ev) = maxConcurrent sm"
proof (cases ev)
  case (IssueTriggered issue cid w)
  then show ?thesis using handleIssueTriggered_bound [OF assms] by simp
next
  case (PRClosed owner repo pr w)
  then show ?thesis
    using handlePRClosed_bound [of w sm owner repo pr] withinLimit_shrink [OF assms] by simp
next
  case (PRReview owner repo pr st body w)
  then show ?thesis
    using handlePRReview_bound [of w sm owner repo pr st body] withinLimit_shrink [OF assms] by simp
next
  case (HealthCheck now probe)
  then show ?thesis
    using healthCheck_bound [of now probe sm] withinLimit_shrink [OF assms] by simp
qed

lemma processEvents_bound:
  "withinLimit sm \<Longrightarrow>
   withinLimit (processEvents sm evs) \<and> maxConcurrent (processEvents sm evs) = maxConcurrent sm"
  unfolding processEvents_def
proof (induction evs arbitrary: sm)
  case Nil
  then show ?case by simp
next
  case (Cons ev evs)
  from processEvent_bound [OF Cons.prems, of ev]
  have b: "withinLimit (processEvent sm ev)"
    and m: "maxConcurrent (processEvent sm ev) = maxConcurrent sm" by simp_all
  from Cons.IH [OF b] m show ?case by simp
qed

lemma withinLimit_whole:
  assumes "withinLimit sm" and "maxConcurrent sm = Finite (of_nat n)"
  shows "length (activeIssues sm) \<le> n"
proof (cases "activeIssues sm = []")
  case True
  then show ?thesis by simp
next
  case False
  with assms have "(of_nat (length (activeIssues sm) - 1) :: rat) < of_nat n"
    by (simp add: withinLimit_def)
  then have "length (activeIssues sm) - 1 < n" by (simp only: of_nat_less_iff)
  then show ?thesis by simp
qed




text \<open>
  C1 (as amended). Started on an empty registry whose \<^verbatim>\<open>maxConcurrent\<close> is a whole number
  \<open>n\<close>, any sequence of events (triggers, closures, and also reviews and health checks),
  processed one at a time, leaves at most \<open>n\<close> units in the registry. Whatever number
  \<^verbatim>\<open>maxConcurrent\<close> is, a trigger that finds the registry size not strictly below it leaves
  the registry as it is and makes exactly one external call, the informational reply
  (already handled, or all slots full with the queue position): no unit is registered and
  no container is created. \<open>canStartNew\<close> is true exactly when the registry size is strictly
  below \<^verbatim>\<open>maxConcurrent\<close>.
\<close>

theorem registry_within_whole_maxConcurrent:
  "length (activeIssues (processEvents (newStateManager (Finite (of_nat n))) evs)) \<le> n
   \<and> (\<not> number_less (Finite (of_nat (length (activeIssues sm)))) (maxConcurrent sm) \<longrightarrow>
        (\<exists>reply. handleIssueTriggered w sm issue cid =
           (sm, [PostIssueComment (t_owner issue) (t_repo issue) (t_number issue) reply],
            rejectReply w \<noteq> None)
          \<and> (reply = AlreadyHandled \<or> reply = SlotsFull (getQueuePosition sm))))
   \<and> (canStartNew sm \<longleftrightarrow>
        number_less (Finite (of_nat (length (activeIssues sm)))) (maxConcurrent sm))
   \<and> (maxConcurrent sm = Finite m \<longrightarrow>
        (canStartNew sm \<longleftrightarrow> of_nat (length (activeIssues sm)) < m))"
proof (intro conjI impI)
  have "withinLimit (newStateManager (Finite (of_nat n)))"
    by (simp add: withinLimit_def newStateManager_def)
  from processEvents_bound [OF this, of evs]
  have "withinLimit (processEvents (newStateManager (Finite (of_nat n))) evs)"
    and "maxConcurrent (processEvents (newStateManager (Finite (of_nat n))) evs) = Finite (of_nat n)"
    by simp_all
  then show "length (activeIssues (processEvents (newStateManager (Finite (of_nat n))) evs)) \<le> n"
    by (rule withinLimit_whole)
next
  assume "\<not> number_less (Finite (of_nat (length (activeIssues sm)))) (maxConcurrent sm)"
  then have nc: "\<not> canStartNew sm" by (simp add: canStartNew_def)
  show "\<exists>reply. handleIssueTriggered w sm issue cid =
           (sm, [PostIssueComment (t_owner issue) (t_repo issue) (t_number issue) reply],
            rejectReply w \<noteq> None)
          \<and> (reply = AlreadyHandled \<or> reply = SlotsFull (getQueuePosition sm))"
  proof (cases "isIssueActive sm (t_owner issue) (t_repo issue) (t_number issue)")
    case True
    then show ?thesis using handleIssueTriggered_active by blast
  next
    case False
    then show ?thesis using handleIssueTriggered_full [OF False nc] by blast
  qed
next
  show "canStartNew sm \<longleftrightarrow>
        number_less (Finite (of_nat (length (activeIssues sm)))) (maxConcurrent sm)"
    by (simp add: canStartNew_def)
next
  assume "maxConcurrent sm = Finite m"
  then show "canStartNew sm \<longleftrightarrow> of_nat (length (activeIssues sm)) < m"
    by (simp add: canStartNew_def)
qed

text \<open>
  The claim as stated fails for a limit that is not a whole number. The configuration
  \<^verbatim>\<open>maxConcurrent: 1.5\<close> passes \<^verbatim>\<open>validateConfig\<close> and is used as it is; with one unit
  registered \<open>1 < 1.5\<close> admits a second one, and the registry then holds two units, more than
  \<^verbatim>\<open>maxConcurrent\<close>.
\<close>

theorem fractional_maxConcurrent_counterexample:
  "validateConfig_maxConcurrent (Some (Finite (3 / 2)))
   \<and> loadConfigWithDefaults_maxConcurrent (Some (Finite (3 / 2))) = Finite (3 / 2)
   \<and> length (activeIssues (processEvents (newStateManager (Finite (3 / 2)))
         [IssueTriggered issue7 (JNum 501) calmWorld, IssueTriggered issue8 (JNum 502) calmWorld])) = 2
   \<and> number_less (Finite (3 / 2))
         (Finite (of_nat (length (activeIssues (processEvents (newStateManager (Finite (3 / 2)))
            [IssueTriggered issue7 (JNum 501) calmWorld, IssueTriggered issue8 (JNum 502) calmWorld])))))"
  by (simp add: validateConfig_maxConcurrent_def loadConfigWithDefaults_maxConcurrent_def
      registry_defs example_defs)

theorem registry_within_whole_maxConcurrent_witness:
  "length (activeIssues (processEvents (newStateManager (Finite (of_nat 1)))
      [IssueTriggered issue7 (JNum 501) calmWorld, IssueTriggered issue8 (JNum 502) calmWorld])) \<le> 1
   \<and> processEvents (newStateManager (Finite 1)) [IssueTriggered issue7 (JNum 501) calmWorld] = oneSlotBusy
   \<and> \<not> number_less (Finite (of_nat (length (activeIssues oneSlotBusy)))) (maxConcurrent oneSlotBusy)
   \<and> handleIssueTriggered calmWorld oneSlotBusy issue8 (JNum 502) =
       (oneSlotBusy, [PostIssueComment (JStr ''acme'') (JStr ''app'') (JNum 8) (SlotsFull (Finite 1))], False)
   \<and> maxConcurrent oneSlotBusy = Finite 1
   \<and> \<not> canStartNew oneSlotBusy"
  using registry_within_whole_maxConcurrent [of 1
      "[IssueTriggered issue7 (JNum 501) calmWorld, IssueTriggered issue8 (JNum 502) calmWorld]"
      oneSlotBusy calmWorld issue8 "JNum 502" 1]
  by (simp add: registry_defs example_defs)




section \<open>The registry as a keyed store\<close>

text \<open>
  C10. \<open>registerIssue\<close> stores the unit under the key of its own fields, whatever the
  registry held: afterwards \<open>getIssue\<close> returns the new unit; when the key was already
  active the registry keeps its size (the old unit is replaced, with no error), otherwise it
  grows by one; every other key reads as before. Keys that differ only in the letter case
  of owner or repository are different keys, hence different entries.
\<close>

theorem registerIssue_upsert:
  "getIssue (registerIssue sm issue) (repoOwner issue) (repoName issue) (issueNumber issue) = Some issue
   \<and> (isIssueActive sm (repoOwner issue) (repoName issue) (issueNumber issue)
        \<longrightarrow> length (activeIssues (registerIssue sm issue)) = length (activeIssues sm))
   \<and> (\<not> isIssueActive sm (repoOwner issue) (repoName issue) (issueNumber issue)
        \<longrightarrow> length (activeIssues (registerIssue sm issue)) = Suc (length (activeIssues sm)))
   \<and> (getIssueKey owner repo num \<noteq> issueKeyOf issue
        \<longrightarrow> getIssue (registerIssue sm issue) owner repo num = getIssue sm owner repo num)
   \<and> (toLowerCase o1 = toLowerCase o2 \<and> toLowerCase r1 = toLowerCase r2 \<and> (o1 \<noteq> o2 \<or> r1 \<noteq> r2)
        \<longrightarrow> getIssueKey (JStr o1) (JStr r1) n \<noteq> getIssueKey (JStr o2) (JStr r2) n)"
proof (intro conjI impI)
  show "getIssue (registerIssue sm issue) (repoOwner issue) (repoName issue) (issueNumber issue) = Some issue"
    by (simp add: getIssue_def registerIssue_def issueKeyOf_def AList.update_conv')
next
  assume "isIssueActive sm (repoOwner issue) (repoName issue) (issueNumber issue)"
  then show "length (activeIssues (registerIssue sm issue)) = length (activeIssues sm)"
    by (simp add: isIssueActive_def getIssue_def registerIssue_def issueKeyOf_def length_update_registry)
next
  assume "\<not> isIssueActive sm (repoOwner issue) (repoName issue) (issueNumber issue)"
  then show "length (activeIssues (registerIssue sm issue)) = Suc (length (activeIssues sm))"
    by (simp add: isIssueActive_def getIssue_def registerIssue_def issueKeyOf_def length_update_registry)
next
  assume "getIssueKey owner repo num \<noteq> issueKeyOf issue"
  then show "getIssue (registerIssue sm issue) owner repo num = getIssue sm owner repo num"
    by (simp add: getIssue_def registerIssue_def AList.update_conv')
next
  assume "toLowerCase o1 = toLowerCase o2 \<and> toLowerCase r1 = toLowerCase r2 \<and> (o1 \<noteq> o2 \<or> r1 \<noteq> r2)"
  then show "getIssueKey (JStr o1) (JStr r1) n \<noteq> getIssueKey (JStr o2) (JStr r2) n"
    using issueKey_case_sensitive by blast
qed

theorem registerIssue_upsert_witness:
  "isIssueActive oneSlotBusy (JStr ''acme'') (JStr ''app'') (JNum 7)
   \<and> getIssue oneSlotBusy (JStr ''acme'') (JStr ''app'') (JNum 7) = Some unit7
   \<and> getIssue (registerIssue oneSlotBusy unit7Retitled) (JStr ''acme'') (JStr ''app'') (JNum 7)
       = Some unit7Retitled
   \<and> unit7Retitled \<noteq> unit7
   \<and> length (activeIssues (registerIssue oneSlotBusy unit7Retitled)) = 1
   \<and> \<not> isIssueActive oneSlotBusy (JStr ''Acme'') (JStr ''app'') (JNum 7)
   \<and> length (activeIssues (registerIssue oneSlotBusy unit7Upper)) = 2
   \<and> getIssue (registerIssue oneSlotBusy unit7Upper) (JStr ''acme'') (JStr ''app'') (JNum 7) = Some unit7
   \<and> getIssue (registerIssue oneSlotBusy unit7Upper) (JStr ''Acme'') (JStr ''app'') (JNum 7) = Some unit7Upper
   \<and> toLowerCase ''Acme'' = toLowerCase ''acme''
   \<and> getIssueKey (JStr ''Acme'') (JStr ''app'') (JNum 7) \<noteq> getIssueKey (JStr ''acme'') (JStr ''app'') (JNum 7)"
  using registerIssue_upsert [of oneSlotBusy unit7Retitled "JStr ''acme''" "JStr ''app''" "JNum 7"
      "''Acme''" "''acme''" "''app''" "''app''" "JNum 7"]
    registerIssue_upsert [of oneSlotBusy unit7Upper "JStr ''acme''" "JStr ''app''" "JNum 7"
      "''Acme''" "''acme''" "''app''" "''app''" "JNum 7"]
  by (simp add: registry_defs example_defs unit7Retitled_def unit7Upper_def toLowerCase_def
      to_lower_char_def upperCaseLetters_def lowerCaseLetters_def)

section \<open>Health monitor\<close>

lemma wfRegistry_lookup:
  assumes "wfRegistry sm" and "issue \<in> set (getAllActive sm)"
  shows "map_of (activeIssues sm) (issueKeyOf issue) = Some issue"
proof -
  from assms(2) obtain k where "(k, issue) \<in> set (activeIssues sm)"
    by (auto simp: getAllActive_def)
  moreover from this assms(1) have "k = issueKeyOf issue" by (auto simp: wfRegistry_def)
  ultimately show ?thesis using assms(1) by (simp add: wfRegistry_def)
qed

lemma wfRegistry_distinct_keys:
  assumes "wfRegistry sm"
  shows "distinct (map issueKeyOf (getAllActive sm))"
proof -
  have "map issueKeyOf (getAllActive sm) = map fst (activeIssues sm)"
    using assms by (auto simp: wfRegistry_def getAllActive_def)
  then show ?thesis using assms by (simp add: wfRegistry_def)
qed

lemma healthCheckIssue_lookup:
  "map_of (activeIssues (fst (healthCheckIssue probe acc y))) k =
     (if reportsDead probe y \<and> k = issueKeyOf y
      then map_option (applyStatus Error (Some (terminatedMessage (containerStatus (probe y))))
                         (clockUpdate (probe y)))
             (map_of (activeIssues (fst acc)) k)
      else map_of (activeIssues (fst acc)) k)"
  by (auto simp: healthCheckIssue_def Let_def reportsDead_def updateIssueStatus_def issueKeyOf_def
      AList.map_of_map_entry split: option.splits)

lemma healthCheck_fold_frame:
  "k \<notin> issueKeyOf ` set xs \<Longrightarrow>
   map_of (activeIssues (fst (foldl (healthCheckIssue probe) acc xs))) k
     = map_of (activeIssues (fst acc)) k"
  by (induction xs arbitrary: acc) (simp_all add: healthCheckIssue_lookup)

lemma healthCheck_fold_lookup:
  assumes "distinct (map issueKeyOf xs)" and "x \<in> set xs" and "reportsDead probe x"
  shows "map_of (activeIssues (fst (foldl (healthCheckIssue probe) acc xs))) (issueKeyOf x) =
           map_option (applyStatus Error (Some (terminatedMessage (containerStatus (probe x))))
                         (clockUpdate (probe x)))
             (map_of (activeIssues (fst acc)) (issueKeyOf x))"
  using assms
proof (induction xs arbitrary: acc)
  case Nil
  then show ?case by simp
next
  case (Cons y ys)
  show ?case
  proof (cases "x = y")
    case True
    with Cons.prems have "issueKeyOf x \<notin> issueKeyOf ` set ys" by auto
    from healthCheck_fold_frame [OF this] True Cons.prems(3)
    show ?thesis by (simp add: healthCheckIssue_lookup)
  next
    case False
    with Cons.prems have x: "x \<in> set ys" and d: "distinct (map issueKeyOf ys)" by auto
    from x have "issueKeyOf x \<in> set (map issueKeyOf ys)" by simp
    with Cons.prems(1) have ne: "issueKeyOf x \<noteq> issueKeyOf y" by auto
    from Cons.IH [OF d x Cons.prems(3)] ne show ?thesis
      by (simp add: healthCheckIssue_lookup)
  qed
qed

lemma healthCheckIssue_notifications:
  "length (filter (isNotificationFor u) (snd (healthCheckIssue probe acc y))) =
     length (filter (isNotificationFor u) (snd acc))
     + (if reportsDead probe y \<and> repoOwner y = repoOwner u \<and> repoName y = repoName u
           \<and> issueNumber y = issueNumber u then 1 else 0)"
  by (auto simp: healthCheckIssue_def Let_def reportsDead_def)

lemma healthCheck_fold_notifications:
  "length (filter (isNotificationFor u) (snd (foldl (healthCheckIssue probe) acc xs))) =
     length (filter (isNotificationFor u) (snd acc))
     + length (filter (\<lambda>y. reportsDead probe y \<and> repoOwner y = repoOwner u
                          \<and> repoName y = repoName u \<and> issueNumber y = issueNumber u) xs)"
  by (induction xs arbitrary: acc) (simp_all add: healthCheckIssue_notifications)

lemma filter_same_key:
  assumes "distinct (map issueKeyOf xs)" and "u \<in> set xs" and "reportsDead probe u"
  shows "length (filter (\<lambda>y. reportsDead probe y \<and> repoOwner y = repoOwner u
                          \<and> repoName y = repoName u \<and> issueNumber y = issueNumber u) xs) = 1"
  using assms
proof (induction xs)
  case Nil
  then show ?case by simp
next
  case (Cons y ys)
  show ?case
  proof (cases "u = y")
    case True
    with Cons.prems have "issueKeyOf u \<notin> issueKeyOf ` set ys" by auto
    then have "\<forall>z \<in> set ys. \<not> (repoOwner z = repoOwner u \<and> repoName z = repoName u
                 \<and> issueNumber z = issueNumber u)"
      by (auto simp: issueKeyOf_def image_iff)
    then have "filter (\<lambda>y. reportsDead probe y \<and> repoOwner y = repoOwner u
                          \<and> repoName y = repoName u \<and> issueNumber y = issueNumber u) ys = []"
      by (auto simp: filter_empty_conv)
    with True Cons.prems(3) show ?thesis by simp
  next
    case False
    with Cons.prems have u: "u \<in> set ys" and d: "distinct (map issueKeyOf ys)" by auto
    from u have "issueKeyOf u \<in> set (map issueKeyOf ys)" by simp
    with Cons.prems(1) have ne: "issueKeyOf u \<noteq> issueKeyOf y" by auto
    from ne have "\<not> (repoOwner y = repoOwner u \<and> repoName y = repoName u
                 \<and> issueNumber y = issueNumber u)"
      by (auto simp: issueKeyOf_def)
    with Cons.IH [OF d u Cons.prems(3)] show ?thesis by auto
  qed
qed

lemma healthCheck_forces_error:
  assumes wf: "wfRegistry sm" and stale: "issue \<in> set (getStaleIssues sm now defaultHeartbeatTimeoutMs)"
    and dead: "reportsDead probe issue"
  shows "getIssue (fst (healthCheck now probe sm)) (repoOwner issue) (repoName issue) (issueNumber issue)
           = Some (applyStatus Error (Some (terminatedMessage (containerStatus (probe issue))))
                     (clockUpdate (probe issue)) issue)"
    and "length (filter (isNotificationFor issue) (snd (healthCheck now probe sm))) = 1"
proof -
  let ?xs = "getStaleIssues sm now defaultHeartbeatTimeoutMs"
  have d: "distinct (map issueKeyOf ?xs)"
    using wfRegistry_distinct_keys [OF wf] by (simp add: getStaleIssues_def distinct_map_filter)
  from stale have act: "issue \<in> set (getAllActive sm)" by (simp add: getStaleIssues_def)
  from healthCheck_fold_lookup [OF d stale dead, of "(sm, [])"] wfRegistry_lookup [OF wf act]
  show "getIssue (fst (healthCheck now probe sm)) (repoOwner issue) (repoName issue) (issueNumber issue)
           = Some (applyStatus Error (Some (terminatedMessage (containerStatus (probe issue))))
                     (clockUpdate (probe issue)) issue)"
    by (simp add: healthCheck_def getIssue_def issueKeyOf_def)
  from healthCheck_fold_notifications [of issue probe "(sm, [])" ?xs] filter_same_key [OF d stale dead]
  show "length (filter (isNotificationFor issue) (snd (healthCheck now probe sm))) = 1"
    by (simp add: healthCheck_def)
qed

text \<open>
  C6. In a well-formed registry, take a unit with no recorded heartbeat whose \<open>startedAt\<close>
  lies more than ten minutes before the health check's clock reading, and let the runtime
  report its container as \<^verbatim>\<open>exited\<close> or \<^verbatim>\<open>dead\<close>. After the health check the unit, under its
  key, has status \<open>Error\<close>, the heartbeat of the moment it was written, and the error
  message \<^verbatim>\<open>Container terminated unexpectedly (status: ...)\<close>, which is not empty; and
  among the external calls of the pass exactly one is a comment on that unit's issue.
\<close>

theorem health_check_forces_error:
  assumes "wfRegistry sm" and "issue \<in> set (getAllActive sm)"
    and "lastHeartbeat issue = None" and "now - startedAt issue > 10 * 60 * 1000"
    and "containerStatus (probe issue) = ''exited'' \<or> containerStatus (probe issue) = ''dead''"
  shows "getIssue (fst (healthCheck now probe sm)) (repoOwner issue) (repoName issue) (issueNumber issue)
           = Some (issue\<lparr>status := Error, lastHeartbeat := Some (clockUpdate (probe issue)),
                         error := Some (terminatedMessage (containerStatus (probe issue)))\<rparr>)
       \<and> terminatedMessage (containerStatus (probe issue)) \<noteq> []
       \<and> length (filter (isNotificationFor issue) (snd (healthCheck now probe sm))) = 1"
proof -
  from assms(2,3,4) have stale: "issue \<in> set (getStaleIssues sm now defaultHeartbeatTimeoutMs)"
    by (simp add: getStaleIssues_def isStale_def)
  from assms(5) have dead: "reportsDead probe issue" by (simp add: reportsDead_def)
  have msg: "terminatedMessage (containerStatus (probe issue)) \<noteq> []"
    by (simp add: terminatedMessage_def)
  from healthCheck_forces_error [OF assms(1) stale dead] msg show ?thesis
    by (simp add: applyStatus_def)
qed

theorem health_check_forces_error_witness:
  "wfRegistry oneSlotBusy \<and> unit7 \<in> set (getAllActive oneSlotBusy)
   \<and> lastHeartbeat unit7 = None \<and> 1700000660000 - startedAt unit7 > 10 * 60 * 1000
   \<and> containerStatus (exitedProbe unit7) = ''exited''
   \<and> getIssue (fst (healthCheck 1700000660000 exitedProbe oneSlotBusy))
         (JStr ''acme'') (JStr ''app'') (JNum 7)
       = Some (unit7\<lparr>status := Error, lastHeartbeat := Some 1700000660000,
                      error := Some ''Container terminated unexpectedly (status: exited)''\<rparr>)
   \<and> snd (healthCheck 1700000660000 exitedProbe oneSlotBusy)
       = [GetContainerStatus ''c1'', GetLogs ''c1'' 50,
          PostIssueComment (JStr ''acme'') (JStr ''app'') (JNum 7) (AgentStopped ''exited'')]"
  using health_check_forces_error [of oneSlotBusy unit7 1700000660000 exitedProbe]
  by (simp add: registry_defs example_defs exitedProbe_def)


text \<open>
  C9. For a key present in the registry, \<open>updateIssueStatus\<close> with any status (\<open>Error\<close>
  included) sets the unit's status and sets \<open>lastHeartbeat\<close> to the clock reading of the
  call. The updated unit is then classified as stale by \<open>getStaleIssues\<close> (default
  timeout) exactly when more than five minutes have passed since that reading; the
  ten-minute rule on \<open>startedAt\<close> no longer applies to it. In particular a stale unit
  whose container the runtime reports as exited or dead leaves the health check with
  status \<open>Error\<close> and the heartbeat of that moment, and is stale again exactly when more
  than five minutes have passed since.
\<close>

theorem updateIssueStatus_heartbeat:
  "(getIssue sm owner repo num = Some issue \<longrightarrow>
      getIssue (updateIssueStatus sm owner repo num st err now) owner repo num
        = Some (applyStatus st err now issue)
      \<and> status (applyStatus st err now issue) = st
      \<and> lastHeartbeat (applyStatus st err now issue) = Some now
      \<and> (applyStatus st err now issue
            \<in> set (getStaleIssues (updateIssueStatus sm owner repo num st err now) later
                     defaultHeartbeatTimeoutMs)
          \<longleftrightarrow> later - now > 5 * 60 * 1000))
   \<and> (wfRegistry sm \<and> stale \<in> set (getStaleIssues sm checked defaultHeartbeatTimeoutMs)
        \<and> reportsDead probe stale \<longrightarrow>
      (\<exists>forced. getIssue (fst (healthCheck checked probe sm))
                   (repoOwner stale) (repoName stale) (issueNumber stale) = Some forced
         \<and> status forced = Error
         \<and> lastHeartbeat forced = Some (clockUpdate (probe stale))
         \<and> (forced \<in> set (getStaleIssues (fst (healthCheck checked probe sm)) later
                              defaultHeartbeatTimeoutMs)
              \<longleftrightarrow> later - clockUpdate (probe stale) > 5 * 60 * 1000)))"
proof (rule conjI; rule impI)
  assume present: "getIssue sm owner repo num = Some issue"
  let ?sm' = "updateIssueStatus sm owner repo num st err now"
  let ?u = "applyStatus st err now issue"
  have g: "getIssue ?sm' owner repo num = Some ?u"
    using present by (simp add: getIssue_updateIssueStatus)
  then have mem: "?u \<in> set (getAllActive ?sm')" by (rule getIssue_in_getAllActive)
  have "isStale later defaultHeartbeatTimeoutMs ?u \<longleftrightarrow> later - now > 5 * 60 * 1000"
    by (simp add: isStale_def defaultHeartbeatTimeoutMs_def)
  with mem g show "getIssue ?sm' owner repo num = Some ?u
      \<and> status ?u = st \<and> lastHeartbeat ?u = Some now
      \<and> (?u \<in> set (getStaleIssues ?sm' later defaultHeartbeatTimeoutMs)
          \<longleftrightarrow> later - now > 5 * 60 * 1000)"
    by (simp add: getStaleIssues_def)
next
  assume a: "wfRegistry sm \<and> stale \<in> set (getStaleIssues sm checked defaultHeartbeatTimeoutMs)
        \<and> reportsDead probe stale"
  let ?sm' = "fst (healthCheck checked probe sm)"
  let ?f = "applyStatus Error (Some (terminatedMessage (containerStatus (probe stale))))
              (clockUpdate (probe stale)) stale"
  from a have g: "getIssue ?sm' (repoOwner stale) (repoName stale) (issueNumber stale) = Some ?f"
    using healthCheck_forces_error(1) by blast
  then have mem: "?f \<in> set (getAllActive ?sm')" by (rule getIssue_in_getAllActive)
  have "isStale later defaultHeartbeatTimeoutMs ?f \<longleftrightarrow> later - clockUpdate (probe stale) > 5 * 60 * 1000"
    by (simp add: isStale_def defaultHeartbeatTimeoutMs_def)
  with mem have "?f \<in> set (getStaleIssues ?sm' later defaultHeartbeatTimeoutMs)
              \<longleftrightarrow> later - clockUpdate (probe stale) > 5 * 60 * 1000"
    by (simp add: getStaleIssues_def)
  with g show "\<exists>forced. getIssue ?sm' (repoOwner stale) (repoName stale) (issueNumber stale) = Some forced
         \<and> status forced = Error
         \<and> lastHeartbeat forced = Some (clockUpdate (probe stale))
         \<and> (forced \<in> set (getStaleIssues ?sm' later defaultHeartbeatTimeoutMs)
              \<longleftrightarrow> later - clockUpdate (probe stale) > 5 * 60 * 1000)"
    by (intro exI [of _ ?f]) simp
qed

theorem updateIssueStatus_heartbeat_witness:
  "getIssue oneSlotBusy (JStr ''acme'') (JStr ''app'') (JNum 7) = Some unit7
   \<and> lastHeartbeat unit7 = None
   \<and> getIssue (updateIssueStatus oneSlotBusy (JStr ''acme'') (JStr ''app'') (JNum 7) Error
                 (Some (terminatedMessage ''exited'')) 1700000660000)
        (JStr ''acme'') (JStr ''app'') (JNum 7)
       = Some (unit7\<lparr>status := Error, lastHeartbeat := Some 1700000660000,
                      error := Some ''Container terminated unexpectedly (status: exited)''\<rparr>)
   \<and> unit7\<lparr>status := Error, lastHeartbeat := Some 1700000660000,
             error := Some ''Container terminated unexpectedly (status: exited)''\<rparr>
       \<notin> set (getStaleIssues (updateIssueStatus oneSlotBusy (JStr ''acme'') (JStr ''app'') (JNum 7) Error
                 (Some (terminatedMessage ''exited'')) 1700000660000) 1700000960000 defaultHeartbeatTimeoutMs)
   \<and> unit7\<lparr>status := Error, lastHeartbeat := Some 1700000660000,
             error := Some ''Container terminated unexpectedly (status: exited)''\<rparr>
       \<in> set (getStaleIssues (updateIssueStatus oneSlotBusy (JStr ''acme'') (JStr ''app'') (JNum 7) Error
                 (Some (terminatedMessage ''exited'')) 1700000660000) 1700000960001 defaultHeartbeatTimeoutMs)
   \<and> wfRegistry oneSlotBusy
   \<and> unit7 \<in> set (getStaleIssues oneSlotBusy 1700000660000 defaultHeartbeatTimeoutMs)
   \<and> reportsDead exitedProbe unit7
   \<and> getStaleIssues (fst (healthCheck 1700000660000 exitedProbe oneSlotBusy)) 1700000960000
        defaultHeartbeatTimeoutMs = []
   \<and> getStaleIssues (fst (healthCheck 1700000660000 exitedProbe oneSlotBusy)) 1700000960001
        defaultHeartbeatTimeoutMs
       = [unit7\<lparr>status := Error, lastHeartbeat := Some 1700000660000,
                 error := Some ''Container terminated unexpectedly (status: exited)''\<rparr>]"
  using updateIssueStatus_heartbeat [of oneSlotBusy "JStr ''acme''" "JStr ''app''" "JNum 7" unit7
      Error "Some (terminatedMessage ''exited'')" 1700000660000 1700000960000
      unit7 1700000660000 exitedProbe]
    updateIssueStatus_heartbeat [of oneSlotBusy "JStr ''acme''" "JStr ''app''" "JNum 7" unit7
      Error "Some (terminatedMessage ''exited'')" 1700000660000 1700000960001
      unit7 1700000660000 exitedProbe]
  by (simp add: registry_defs example_defs exitedProbe_def)


section \<open>Well-formedness is an invariant\<close>

lemma set_update_registry:
  "(k', v') \<in> set (AList.update k v al) \<Longrightarrow> (k', v') = (k, v) \<or> (k', v') \<in> set al"
  by (induction al) (auto split: if_splits)

lemma set_map_entry_registry:
  "(k', v') \<in> set (AList.map_entry k f al) \<Longrightarrow>
   (k', v') \<in> set al \<or> (k' = k \<and> (\<exists>v. (k, v) \<in> set al \<and> v' = f v))"
  by (induction al) (auto split: if_splits)

lemma set_delete_registry: "set (AList.delete k al) \<subseteq> set al"
  by (auto simp: AList.delete_eq)

lemma wfRegistry_new: "wfRegistry (newStateManager n)"
  by (simp add: wfRegistry_def newStateManager_def)

lemma wfRegistry_intro:
  assumes "distinct (map fst (activeIssues sm))"
    and "\<And>k issue. (k, issue) \<in> set (activeIssues sm) \<Longrightarrow> k = issueKeyOf issue"
  shows "wfRegistry sm"
  using assms unfolding wfRegistry_def by blast

lemma wfRegistry_key: "wfRegistry sm \<Longrightarrow> (k, issue) \<in> set (activeIssues sm) \<Longrightarrow> k = issueKeyOf issue"
  unfolding wfRegistry_def by blast

lemma wfRegistry_distinct: "wfRegistry sm \<Longrightarrow> distinct (map fst (activeIssues sm))"
  unfolding wfRegistry_def by blast

lemma wfRegistry_registerIssue:
  assumes "wfRegistry sm"
  shows "wfRegistry (registerIssue sm issue)"
proof (rule wfRegistry_intro)
  show "distinct (map fst (activeIssues (registerIssue sm issue)))"
    using wfRegistry_distinct [OF assms] by (simp add: registerIssue_def AList.distinct_update)
next
  fix k i
  assume "(k, i) \<in> set (activeIssues (registerIssue sm issue))"
  then have "(k, i) = (issueKeyOf issue, issue) \<or> (k, i) \<in> set (activeIssues sm)"
    using set_update_registry by (simp add: registerIssue_def)
  then show "k = issueKeyOf i" using wfRegistry_key [OF assms] by blast
qed

lemma wfRegistry_removeIssue:
  assumes "wfRegistry sm"
  shows "wfRegistry (removeIssue sm owner repo num)"
proof (rule wfRegistry_intro)
  show "distinct (map fst (activeIssues (removeIssue sm owner repo num)))"
    using wfRegistry_distinct [OF assms] by (simp add: removeIssue_def AList.distinct_delete)
next
  fix k i
  assume "(k, i) \<in> set (activeIssues (removeIssue sm owner repo num))"
  then have "(k, i) \<in> set (activeIssues sm)"
    using set_delete_registry by (fastforce simp: removeIssue_def)
  then show "k = issueKeyOf i" using wfRegistry_key [OF assms] by blast
qed

lemma issueKeyOf_applyStatus [simp]: "issueKeyOf (applyStatus st err now issue) = issueKeyOf issue"
  by (simp add: issueKeyOf_def)

lemma wfRegistry_updateIssueStatus:
  assumes "wfRegistry sm"
  shows "wfRegistry (updateIssueStatus sm owner repo num st err now)"
proof (rule wfRegistry_intro)
  show "distinct (map fst (activeIssues (updateIssueStatus sm owner repo num st err now)))"
    using wfRegistry_distinct [OF assms] by (simp add: updateIssueStatus_def AList.distinct_map_entry)
next
  fix k i
  assume "(k, i) \<in> set (activeIssues (updateIssueStatus sm owner repo num st err now))"
  then have "(k, i) \<in> set (activeIssues sm)
      \<or> (\<exists>v. (k, v) \<in> set (activeIssues sm) \<and> i = applyStatus st err now v)"
    using set_map_entry_registry [of k i "getIssueKey owner repo num" "applyStatus st err now" "activeIssues sm"]
    by (auto simp: updateIssueStatus_def)
  then show "k = issueKeyOf i" using wfRegistry_key [OF assms] by auto
qed

lemma wfRegistry_handleIssueTriggered:
  "wfRegistry sm \<Longrightarrow> wfRegistry (fst (handleIssueTriggered w sm issue cid))"
  using handleIssueTriggered_registry [of w sm issue cid] wfRegistry_registerIssue by auto

lemma wfRegistry_handlePRClosed:
  "wfRegistry sm \<Longrightarrow> wfRegistry (fst (handlePRClosed w sm owner repo pr))"
  by (auto simp: handlePRClosed_def Let_def wfRegistry_removeIssue split: option.splits)

lemma wfRegistry_handlePRReview:
  "wfRegistry sm \<Longrightarrow> wfRegistry (fst (handlePRReview w sm owner repo pr st body))"
  by (auto simp: handlePRReview_def wfRegistry_updateIssueStatus split: option.splits)

lemma wfRegistry_healthCheckIssue:
  "wfRegistry (fst acc) \<Longrightarrow> wfRegistry (fst (healthCheckIssue probe acc issue))"
  by (simp add: healthCheckIssue_def Let_def wfRegistry_updateIssueStatus)

lemma wfRegistry_healthCheck: "wfRegistry sm \<Longrightarrow> wfRegistry (fst (healthCheck now probe sm))"
proof -
  have "wfRegistry (fst acc) \<Longrightarrow> wfRegistry (fst (foldl (healthCheckIssue probe) acc xs))" for acc xs
    by (induction xs arbitrary: acc) (simp_all add: wfRegistry_healthCheckIssue)
  from this [of "(sm, [])"] show "wfRegistry sm \<Longrightarrow> wfRegistry (fst (healthCheck now probe sm))"
    by (simp add: healthCheck_def)
qed

lemma wfRegistry_processEvent: "wfRegistry sm \<Longrightarrow> wfRegistry (processEvent sm ev)"
  by (cases ev)
    (simp_all add: wfRegistry_handleIssueTriggered wfRegistry_handlePRClosed
      wfRegistry_handlePRReview wfRegistry_healthCheck)

lemma wfRegistry_processEvents: "wfRegistry sm \<Longrightarrow> wfRegistry (processEvents sm evs)"
  unfolding processEvents_def
  by (induction evs arbitrary: sm) (simp_all add: wfRegistry_processEvent)

lemma wfRegistry_reachable: "wfRegistry (processEvents (newStateManager n) evs)"
  by (rule wfRegistry_processEvents [OF wfRegistry_new])

section \<open>Teardown on closure\<close>

lemma handlePRClosed_never_throws: "\<not> snd (snd (handlePRClosed w sm owner repo pr))"
  by (simp add: handlePRClosed_def Let_def split: option.splits)

text \<open>
  The only assignment to \<^verbatim>\<open>prNumber\<close> is in \<^verbatim>\<open>StateManager.setPRNumber\<close>, which nothing calls:
  the handlers register units without a pull-request number and none of them writes one.
  So no registry the orchestrator builds holds a unit with a pull-request number.
\<close>

lemma noPR_iff: "noPR sm \<longleftrightarrow> (\<forall>(k, u) \<in> set (activeIssues sm). prNumber u = None)"
  by (auto simp: noPR_def getAllActive_def list_all_iff)

lemma noPR_registerIssue:
  assumes "noPR sm" and "prNumber v = None"
  shows "noPR (registerIssue sm v)"
  unfolding noPR_iff
proof (clarify)
  fix k u
  assume "(k, u) \<in> set (activeIssues (registerIssue sm v))"
  then have "(k, u) = (issueKeyOf v, v) \<or> (k, u) \<in> set (activeIssues sm)"
    using set_update_registry by (simp add: registerIssue_def)
  with assms show "prNumber u = None" by (auto simp: noPR_iff)
qed

lemma noPR_removeIssue:
  assumes "noPR sm"
  shows "noPR (removeIssue sm owner repo num)"
  unfolding noPR_iff
proof (clarify)
  fix k u
  assume "(k, u) \<in> set (activeIssues (removeIssue sm owner repo num))"
  then have "(k, u) \<in> set (activeIssues sm)"
    using set_delete_registry by (fastforce simp: removeIssue_def)
  with assms show "prNumber u = None" by (auto simp: noPR_iff)
qed

lemma noPR_updateIssueStatus:
  assumes "noPR sm"
  shows "noPR (updateIssueStatus sm owner repo num st err now)"
  unfolding noPR_iff
proof (clarify)
  fix k u
  assume "(k, u) \<in> set (activeIssues (updateIssueStatus sm owner repo num st err now))"
  then have "(k, u) \<in> set (activeIssues sm)
      \<or> (\<exists>v. (k, v) \<in> set (activeIssues sm) \<and> u = applyStatus st err now v)"
    using set_map_entry_registry [of k u "getIssueKey owner repo num" "applyStatus st err now" "activeIssues sm"]
    by (auto simp: updateIssueStatus_def)
  with assms show "prNumber u = None" by (auto simp: noPR_iff)
qed

lemma noPR_handleIssueTriggered: "noPR sm \<Longrightarrow> noPR (fst (handleIssueTriggered w sm issue cid))"
  by (auto simp: handleIssueTriggered_def Let_def newActiveIssue_def noPR_registerIssue
      split: option.splits sum.splits prod.splits)

lemma noPR_handlePRClosed: "noPR sm \<Longrightarrow> noPR (fst (handlePRClosed w sm owner repo pr))"
  by (auto simp: handlePRClosed_def Let_def noPR_removeIssue split: option.splits)

lemma noPR_handlePRReview: "noPR sm \<Longrightarrow> noPR (fst (handlePRReview w sm owner repo pr st body))"
  by (auto simp: handlePRReview_def noPR_updateIssueStatus split: option.splits)

lemma noPR_healthCheck: "noPR sm \<Longrightarrow> noPR (fst (healthCheck now probe sm))"
proof -
  have "noPR (fst acc) \<Longrightarrow> noPR (fst (foldl (healthCheckIssue probe) acc xs))" for acc xs
    by (induction xs arbitrary: acc) (simp_all add: healthCheckIssue_def Let_def noPR_updateIssueStatus)
  from this [of "(sm, [])"] show "noPR sm \<Longrightarrow> noPR (fst (healthCheck now probe sm))"
    by (simp add: healthCheck_def)
qed

lemma noPR_processEvent: "noPR sm \<Longrightarrow> noPR (processEvent sm ev)"
  by (cases ev)
    (simp_all add: noPR_handleIssueTriggered noPR_handlePRClosed noPR_handlePRReview noPR_healthCheck)

lemma noPR_reachable: "noPR (processEvents (newStateManager m) evs)"
proof -
  have "noPR sm \<Longrightarrow> noPR (foldl processEvent sm evs)" for sm
    by (induction evs arbitrary: sm) (simp_all add: noPR_processEvent)
  from this [of "newStateManager m"] show ?thesis
    by (simp add: processEvents_def noPR_def newStateManager_def getAllActive_def)
qed

lemma handlePRClosed_noPR: "noPR sm \<Longrightarrow> handlePRClosed w sm owner repo pr = (sm, [], False)"
proof -
  assume "noPR sm"
  then have "find (\<lambda>i. prNumber i = Some pr) (getAllActive sm) = None"
    by (auto simp: noPR_def list_all_iff find_None_iff)
  then show ?thesis by (simp add: handlePRClosed_def)
qed

text \<open>
  C7. In every registry the orchestrator builds from its events, the closure of a pull
  request finds no unit: the handler returns the registry as it is and makes no call, so
  no unit is removed and no container removal is requested. At the registry that holds the
  unit started for issue 7, the closure of pull request 12 leaves that unit registered.
  Had \<^verbatim>\<open>setPRNumber\<close> recorded the pull request on the unit, the same closure would have
  requested the removal of the container and emptied the registry.
\<close>

theorem closure_finds_no_unit:
  "handlePRClosed w (processEvents (newStateManager m) evs) owner repo pr =
     (processEvents (newStateManager m) evs, [], False)
   \<and> processEvents (newStateManager (Finite 1)) [IssueTriggered issue7 (JNum 501) calmWorld] = oneSlotBusy
   \<and> handlePRClosed removalWorks oneSlotBusy ''acme'' ''app'' 12 = (oneSlotBusy, [], False)
   \<and> getIssue (fst (handlePRClosed removalWorks oneSlotBusy ''acme'' ''app'' 12))
        (JStr ''acme'') (JStr ''app'') (JNum 7) = Some unit7
   \<and> handlePRClosed removalWorks trackedPR ''acme'' ''app'' 12 =
       (\<lparr>activeIssues = [], maxConcurrent = Finite 1\<rparr>,
        [RemoveContainer ''c1'',
         PostIssueComment (JStr ''acme'') (JStr ''app'') (JNum 7) (AgentCompleted 12)], False)"
proof (intro conjI)
  show "handlePRClosed w (processEvents (newStateManager m) evs) owner repo pr =
     (processEvents (newStateManager m) evs, [], False)"
    by (rule handlePRClosed_noPR [OF noPR_reachable])
next
  show "processEvents (newStateManager (Finite 1)) [IssueTriggered issue7 (JNum 501) calmWorld] = oneSlotBusy"
    by (simp add: registry_defs example_defs)
next
  show "handlePRClosed removalWorks oneSlotBusy ''acme'' ''app'' 12 = (oneSlotBusy, [], False)"
    by (simp add: registry_defs example_defs)
next
  show "getIssue (fst (handlePRClosed removalWorks oneSlotBusy ''acme'' ''app'' 12))
        (JStr ''acme'') (JStr ''app'') (JNum 7) = Some unit7"
    by (simp add: registry_defs example_defs)
next
  show "handlePRClosed removalWorks trackedPR ''acme'' ''app'' 12 =
       (\<lparr>activeIssues = [], maxConcurrent = Finite 1\<rparr>,
        [RemoveContainer ''c1'',
         PostIssueComment (JStr ''acme'') (JStr ''app'') (JNum 7) (AgentCompleted 12)], False)"
    by (simp add: registry_defs example_defs trackedPR_def removalWorks_def)
qed

section \<open>Status reports\<close>

text \<open>
  C5. The status endpoint acknowledges every update that has a body and leaves the
  registry as it is, whether or not the container id belongs to a registered unit. At a
  concrete update for the container of a registered unit, the unit's status and heartbeat
  are what they were; \<open>updateIssueByContainerId\<close>, which the endpoint does not call, would
  have written both.
\<close>

theorem status_update_not_applied:
  "apiStatus sm (Some statusUpdate) = (sm, Received)
   \<and> getIssueByContainerId oneSlotBusy ''c1'' = Some unit7
   \<and> getIssueByContainerId
        (fst (apiStatus oneSlotBusy
           (Some \<lparr>su_container_id = ''c1'', su_status = Developing, su_message = ''Implementing'',
                   su_timestamp = ''2023-11-14T22:20:00.000Z''\<rparr>))) ''c1'' = Some unit7
   \<and> status unit7 = Starting \<and> lastHeartbeat unit7 = None
   \<and> getIssueByContainerId
        (updateIssueByContainerId oneSlotBusy ''c1'' (\<lambda>issue. issue\<lparr>status := Developing\<rparr>) 1700000400000)
        ''c1'' = Some (unit7\<lparr>status := Developing, lastHeartbeat := Some 1700000400000\<rparr>)"
  by (simp add: apiStatus_def getIssueByContainerId_def updateIssueByContainerId_def
      registry_defs example_defs)

section \<open>Rate budget\<close>

lemma property_overview:
  "property (rateLimitOverview core others rate) ''resources''
     = Some (JsonObject ((''core'', quotaObject core) # others))"
  "property (JsonObject ((''core'', quotaObject core) # others)) ''core'' = Some (quotaObject core)"
  "property (quotaObject core) ''rate'' = None"
  by (simp_all add: rateLimitOverview_def quotaObject_def)

lemma checkRateLimit_overview:
  "checkRateLimit (Some (rateLimitOverview core others rate)) P = (call GetRateLimit P, True)"
  by (simp add: checkRateLimit_def property_overview Let_def)

lemma property_nested:
  "property (nestedRateBody q) ''resources''
     = Some (JsonObject [(''core'', JsonObject [(''rate'', quotaObject q)])])"
  "property (JsonObject [(''core'', JsonObject [(''rate'', quotaObject q)])]) ''core''
     = Some (JsonObject [(''rate'', quotaObject q)])"
  "property (JsonObject [(''rate'', quotaObject q)]) ''rate'' = Some (quotaObject q)"
  "property (quotaObject q) ''remaining'' = Some (JsonNumber (rate_remaining q))"
  "property (quotaObject q) ''limit'' = Some (JsonNumber (rate_limit q))"
  "property (quotaObject q) ''reset'' = Some (JsonNumber (rate_reset q))"
  by (simp_all add: nestedRateBody_def quotaObject_def)

text \<open>
  C8. Every poll cycle starts with the rate-limit request, and a request that fails lets
  the cycle proceed. But the body GitHub answers with never stops a cycle: the quota of the
  core API is \<^verbatim>\<open>resources.core\<close> itself, the code looks for a member \<^verbatim>\<open>rate\<close> inside it, reads
  \<^verbatim>\<open>undefined\<close>, and the TypeError of \<^verbatim>\<open>rate.remaining\<close> lands in the fail-open \<^verbatim>\<open>catch\<close>. Whatever
  quota the body reports, every enabled repository is polled and the two rate-limit fields
  keep their values; so it is with no request left out of 5000. The comparison itself is as
  the claim says: on a body that holds the quota where the code looks for it, a remaining
  quota strictly below a tenth of the limit (with a valid reset time) ends the cycle after
  the rate-limit request.
\<close>

theorem rate_budget_never_skips:
  "pollAll (Some (rateLimitOverview core others rate)) repos P =
        foldl (\<lambda>Q (repo, r). pollRepo repo r Q) (call GetRateLimit P)
          (filter (\<lambda>(repo, r). enabled repo) repos)
   \<and> calls (pollAll (Some (rateLimitOverview exhaustedQuota searchQuota exhaustedQuota))
               [(acmeApp, silentApi)] freshPoller) =
        [GetRateLimit, ListIssuesSince ''acme'' ''app'' 1699913600000, ListOpenIssues ''acme'' ''app'',
         ListPulls ''acme'' ''app'']
   \<and> pollAll None repos P =
        foldl (\<lambda>Q (repo, r). pollRepo repo r Q) (call GetRateLimit P)
          (filter (\<lambda>(repo, r). enabled repo) repos)
   \<and> (10 * rate_remaining q < rate_limit q \<and> validDate (rate_reset q * 1000) \<longrightarrow>
        pollAll (Some (nestedRateBody q)) repos P =
          (call GetRateLimit P)\<lparr>rateLimitRemaining := Some (JsonNumber (rate_remaining q)),
                                 rateLimitReset := Some (rate_reset q * 1000)\<rparr>)"
proof (intro conjI impI)
  show "pollAll (Some (rateLimitOverview core others rate)) repos P =
        foldl (\<lambda>Q (repo, r). pollRepo repo r Q) (call GetRateLimit P)
          (filter (\<lambda>(repo, r). enabled repo) repos)"
    by (simp add: pollAll_def checkRateLimit_overview)
next
  have "pollAll (Some (rateLimitOverview exhaustedQuota searchQuota exhaustedQuota))
          [(acmeApp, silentApi)] freshPoller =
        pollRepo acmeApp silentApi (call GetRateLimit freshPoller)"
    by (simp add: pollAll_def checkRateLimit_overview acmeApp_def)
  then show "calls (pollAll (Some (rateLimitOverview exhaustedQuota searchQuota exhaustedQuota))
               [(acmeApp, silentApi)] freshPoller) =
        [GetRateLimit, ListIssuesSince ''acme'' ''app'' 1699913600000, ListOpenIssues ''acme'' ''app'',
         ListPulls ''acme'' ''app'']"
    by (simp add: poller_defs example_defs silentApi_def Let_def)
next
  show "pollAll None repos P =
        foldl (\<lambda>Q (repo, r). pollRepo repo r Q) (call GetRateLimit P)
          (filter (\<lambda>(repo, r). enabled repo) repos)"
    by (simp add: pollAll_def checkRateLimit_def Let_def)
next
  assume "10 * rate_remaining q < rate_limit q \<and> validDate (rate_reset q * 1000)"
  then show "pollAll (Some (nestedRateBody q)) repos P =
          (call GetRateLimit P)\<lparr>rateLimitRemaining := Some (JsonNumber (rate_remaining q)),
                                 rateLimitReset := Some (rate_reset q * 1000)\<rparr>"
    by (simp add: pollAll_def checkRateLimit_def property_nested newDate_def Let_def)
qed

theorem rate_budget_never_skips_witness:
  "rate_remaining exhaustedQuota = 0 \<and> rate_limit exhaustedQuota = 5000
   \<and> rateLimitRemaining (pollAll (Some (rateLimitOverview exhaustedQuota searchQuota exhaustedQuota))
               [(acmeApp, silentApi)] freshPoller) = Some (JsonNumber 5000)
   \<and> 10 * rate_remaining lowQuota < rate_limit lowQuota \<and> validDate (rate_reset lowQuota * 1000)
   \<and> pollAll (Some (nestedRateBody lowQuota)) [(acmeApp, silentApi)] freshPoller =
        freshPoller\<lparr>rateLimitRemaining := Some (JsonNumber 499),
                      rateLimitReset := Some 1700003600000, calls := [GetRateLimit]\<rparr>
   \<and> \<not> 10 * rate_remaining tenthQuota < rate_limit tenthQuota
   \<and> calls (pollAll (Some (nestedRateBody tenthQuota)) [(acmeApp, silentApi)] freshPoller) =
        [GetRateLimit, ListIssuesSince ''acme'' ''app'' 1699913600000, ListOpenIssues ''acme'' ''app'',
         ListPulls ''acme'' ''app'']"
proof -
  have e: "rate_remaining exhaustedQuota = 0 \<and> rate_limit exhaustedQuota = 5000"
    by (simp add: exhaustedQuota_def)
  have r: "rateLimitRemaining (pollAll (Some (rateLimitOverview exhaustedQuota searchQuota exhaustedQuota))
               [(acmeApp, silentApi)] freshPoller) = Some (JsonNumber 5000)"
    by (simp add: pollAll_def checkRateLimit_overview poller_defs example_defs silentApi_def Let_def)
  have h: "10 * rate_remaining lowQuota < rate_limit lowQuota \<and> validDate (rate_reset lowQuota * 1000)"
    by (simp add: lowQuota_def validDate_def)
  have v: "(call GetRateLimit freshPoller)\<lparr>rateLimitRemaining := Some (JsonNumber (rate_remaining lowQuota)),
                                           rateLimitReset := Some (rate_reset lowQuota * 1000)\<rparr>
           = freshPoller\<lparr>rateLimitRemaining := Some (JsonNumber 499),
                          rateLimitReset := Some 1700003600000, calls := [GetRateLimit]\<rparr>"
    by (simp add: call_def lowQuota_def freshPoller_def newPoller_def)
  have n: "\<not> 10 * rate_remaining tenthQuota < rate_limit tenthQuota"
    by (simp add: tenthQuota_def)
  have t: "calls (pollAll (Some (nestedRateBody tenthQuota)) [(acmeApp, silentApi)] freshPoller) =
        [GetRateLimit, ListIssuesSince ''acme'' ''app'' 1699913600000, ListOpenIssues ''acme'' ''app'',
         ListPulls ''acme'' ''app'']"
    by (simp add: pollAll_def checkRateLimit_def property_nested newDate_def Let_def
        poller_defs example_defs silentApi_def tenthQuota_def)
  from h have "pollAll (Some (nestedRateBody lowQuota)) [(acmeApp, silentApi)] freshPoller =
        (call GetRateLimit freshPoller)\<lparr>rateLimitRemaining := Some (JsonNumber (rate_remaining lowQuota)),
                                          rateLimitReset := Some (rate_reset lowQuota * 1000)\<rparr>"
    using rate_budget_never_skips [of exhaustedQuota searchQuota exhaustedQuota "[(acmeApp, silentApi)]"
        freshPoller lowQuota]
    by blast
  with v have "pollAll (Some (nestedRateBody lowQuota)) [(acmeApp, silentApi)] freshPoller =
        freshPoller\<lparr>rateLimitRemaining := Some (JsonNumber 499),
                      rateLimitReset := Some 1700003600000, calls := [GetRateLimit]\<rparr>"
    by (simp only:)
  with e r h n t show ?thesis by blast
qed

section \<open>The loops of the poller\<close>

lemma call_fields [simp]:
  "knownPRs (call c P) = knownPRs P"
  "knownReviews (call c P) = knownReviews P"
  "lastIssueCheck (call c P) = lastIssueCheck P"
  "lastCommentCheck (call c P) = lastCommentCheck P"
  "calls (call c P) = calls P @ [c]"
  by (simp_all add: call_def)

lemma reviewLoop_fields [simp]:
  "knownPRs (fst (reviewLoop repo n lst rs P)) = knownPRs P"
  "knownReviews (fst (reviewLoop repo n lst rs P)) = knownReviews P"
  "lastIssueCheck (fst (reviewLoop repo n lst rs P)) = lastIssueCheck P"
  "lastCommentCheck (fst (reviewLoop repo n lst rs P)) = lastCommentCheck P"
  by (induction rs arbitrary: P) (simp_all add: Let_def)

lemma reviewLoop_ok: "snd (reviewLoop repo n lst rs P) = reviewsHandled lst rs"
  by (induction rs arbitrary: P) (auto simp: reviewsHandled_def Let_def)

lemma reviewLoop_closed_calls:
  "count_list (calls (fst (reviewLoop repo n lst rs P))) (OnPRClosed a b c)
     = count_list (calls P) (OnPRClosed a b c)"
  by (induction rs arbitrary: P) (simp_all add: Let_def)

lemma fold_max_ids: "fold max (map f xs) (f x) = (Max (f ` set (x # xs)) :: int)"
  using Max.set_eq_fold [of "f x" "map f xs"] by simp

lemma pollPRReviews_knownReviews:
  "knownReviews (pollPRReviews repo pr P) =
     (case pr_reviews pr of
        None \<Rightarrow> knownReviews P
      | Some rs \<Rightarrow>
          if reviewsHandled (lastSeen (knownReviews P) (prKeyOf repo (pr_number pr))) rs \<and> rs \<noteq> []
          then (knownReviews P)(prKeyOf repo (pr_number pr) \<mapsto> Max (review_id ` set rs))
          else knownReviews P)"
proof (cases "pr_reviews pr")
  case None
  then show ?thesis by (simp add: pollPRReviews_def Let_def)
next
  case (Some rs)
  show ?thesis
  proof (cases rs)
    case Nil
    with Some show ?thesis
      by (simp add: pollPRReviews_def Let_def split_beta)
  next
    case (Cons r rs')
    with Some show ?thesis
      using fold_max_ids [of review_id rs' r]
      by (simp add: pollPRReviews_def Let_def split_beta reviewLoop_ok del: reviewLoop.simps)
  qed
qed

lemma pollPRReviews_fields [simp]:
  "knownPRs (pollPRReviews repo pr P) = knownPRs P"
  "lastIssueCheck (pollPRReviews repo pr P) = lastIssueCheck P"
  "lastCommentCheck (pollPRReviews repo pr P) = lastCommentCheck P"
  by (simp_all add: pollPRReviews_def Let_def split_beta split: option.splits list.splits)

lemma pollPRReviews_closed_calls:
  "count_list (calls (pollPRReviews repo pr P)) (OnPRClosed a b c) = count_list (calls P) (OnPRClosed a b c)"
  by (simp add: pollPRReviews_def Let_def split_beta reviewLoop_closed_calls
      split: option.splits list.splits)

lemma pollPRReviews_other_key:
  "k \<noteq> prKeyOf repo (pr_number pr) \<Longrightarrow> knownReviews (pollPRReviews repo pr P) k = knownReviews P k"
  by (simp add: pollPRReviews_knownReviews split: option.splits)

section \<open>Closed pull requests\<close>

lemma pullsLoop_frame:
  "k \<notin> prKeyOf repo ` pr_number ` set prs \<Longrightarrow>
   (k \<in> knownPRs (pullsLoop repo prs P) \<longleftrightarrow> k \<in> knownPRs P)
   \<and> knownReviews (pullsLoop repo prs P) k = knownReviews P k"
proof (induction prs arbitrary: P)
  case Nil
  then show ?case by simp
next
  case (Cons p ps)
  then have k: "k \<noteq> prKeyOf repo (pr_number p)" and ks: "k \<notin> prKeyOf repo ` pr_number ` set ps"
    by auto
  note ih = Cons.IH [OF ks]
  from k show ?case
    by (simp add: Let_def ih pollPRReviews_other_key)
qed

lemma pullsLoop_closed:
  assumes "distinct (map pr_number prs)" and "q \<in> set prs"
    and "isAgentPR q" and "pr_state q = ''closed''"
    and "\<forall>p \<in> set prs. isAgentPR p \<and> pr_state p = ''closed'' \<longrightarrow> pr_closeHandlerOk p"
  shows "prKeyOf repo (pr_number q) \<notin> knownPRs (pullsLoop repo prs P)
         \<and> knownReviews (pullsLoop repo prs P) (prKeyOf repo (pr_number q)) = None"
  using assms
proof (induction prs arbitrary: P)
  case Nil
  then show ?case by simp
next
  case (Cons p ps)
  show ?case
  proof (cases "q = p")
    case True
    from Cons.prems(1) True have "pr_number p \<notin> pr_number ` set ps" by auto
    then have "prKeyOf repo (pr_number p) \<notin> prKeyOf repo ` pr_number ` set ps"
      using prKeyOf_inj by blast
    note fr = pullsLoop_frame [OF this]
    from Cons.prems(5) True Cons.prems(3,4) have ok: "pr_closeHandlerOk p" by simp
    from True Cons.prems(3,4) ok show ?thesis
      by (simp add: Let_def fr isAgentPR_def)
  next
    case False
    with Cons.prems have q: "q \<in> set ps" and d: "distinct (map pr_number ps)"
      and h: "\<forall>p \<in> set ps. isAgentPR p \<and> pr_state p = ''closed'' \<longrightarrow> pr_closeHandlerOk p"
      by auto
    note ih = Cons.IH [OF d q Cons.prems(3,4) h]
    from Cons.prems(5) have ok: "isAgentPR p \<and> pr_state p = ''closed'' \<longrightarrow> pr_closeHandlerOk p"
      by simp
    from ok show ?thesis
      by (auto simp: Let_def ih isAgentPR_def)
  qed
qed

lemma pullsLoop_closed_calls:
  assumes "\<forall>p \<in> set prs. isAgentPR p \<and> pr_state p = ''closed'' \<longrightarrow> pr_closeHandlerOk p"
  shows "count_list (calls (pullsLoop repo prs P)) (OnPRClosed (rc_owner repo) (rc_name repo) n) =
           count_list (calls P) (OnPRClosed (rc_owner repo) (rc_name repo) n)
           + length (filter (\<lambda>p. isAgentPR p \<and> pr_state p = ''closed'' \<and> pr_number p = n) prs)"
  using assms
proof (induction prs arbitrary: P)
  case Nil
  then show ?case by simp
next
  case (Cons p ps)
  then have h: "\<forall>p \<in> set ps. isAgentPR p \<and> pr_state p = ''closed'' \<longrightarrow> pr_closeHandlerOk p"
    and ok: "isAgentPR p \<and> pr_state p = ''closed'' \<longrightarrow> pr_closeHandlerOk p" by auto
  note ih = Cons.IH [OF h]
  from ok show ?case
    by (auto simp: Let_def ih isAgentPR_def pollPRReviews_closed_calls)
qed

lemma filter_listed_once:
  assumes "distinct (map pr_number prs)" and "q \<in> set prs" and "isAgentPR q" and "pr_state q = ''closed''"
  shows "length (filter (\<lambda>p. isAgentPR p \<and> pr_state p = ''closed'' \<and> pr_number p = pr_number q) prs) = 1"
  using assms
proof (induction prs)
  case Nil
  then show ?case by simp
next
  case (Cons p ps)
  show ?case
  proof (cases "q = p")
    case True
    with Cons.prems(1) have "pr_number q \<notin> pr_number ` set ps" by auto
    then have "\<forall>x \<in> set ps. pr_number x \<noteq> pr_number q" by (metis imageI)
    then have "filter (\<lambda>p. isAgentPR p \<and> pr_state p = ''closed'' \<and> pr_number p = pr_number q) ps = []"
      by (auto simp: filter_empty_conv)
    with True Cons.prems(3,4) show ?thesis by simp
  next
    case False
    with Cons.prems have q: "q \<in> set ps" and d: "distinct (map pr_number ps)" by auto
    from q have "pr_number q \<in> set (map pr_number ps)" by simp
    with Cons.prems(1) have "pr_number p \<noteq> pr_number q" by auto
    with Cons.IH [OF d q Cons.prems(3,4)] show ?thesis by simp
  qed
qed

section \<open>Watermarks\<close>

text \<open>
  What the loops over comments, reviews and new issues leave in the poller: they add calls
  (the loop over new issues also an empty comment map for a repository that has none), and
  whether they run to their end is decided by the handler results alone.
\<close>

lemma commentLoop_fields [simp]:
  "knownPRs (fst (commentLoop repo n lst cs P)) = knownPRs P"
  "knownReviews (fst (commentLoop repo n lst cs P)) = knownReviews P"
  "lastIssueCheck (fst (commentLoop repo n lst cs P)) = lastIssueCheck P"
  "lastCommentCheck (fst (commentLoop repo n lst cs P)) = lastCommentCheck P"
  by (induction cs arbitrary: P) (simp_all add: Let_def)

lemma commentLoop_ok: "snd (commentLoop repo n lst cs P) = commentsHandled repo lst cs"
  by (induction cs arbitrary: P) (auto simp: commentsHandled_def Let_def)

lemma pollIssueCommentsIssue_map:
  "fst (pollIssueCommentsIssue repo acc issue) =
     (case commentBatch repo (fst acc) issue of
        None \<Rightarrow> fst acc
      | Some cs \<Rightarrow> (fst acc)(oi_number issue \<mapsto> Max (comment_id ` set cs)))"
proof (cases "oi_comments issue")
  case None
  then show ?thesis by (simp add: pollIssueCommentsIssue_def commentBatch_def Let_def)
next
  case (Some cs)
  show ?thesis
  proof (cases cs)
    case Nil
    with Some show ?thesis
      by (simp add: pollIssueCommentsIssue_def commentBatch_def Let_def split_beta)
  next
    case (Cons c cs')
    with Some show ?thesis
      using fold_max_ids [of comment_id cs' c]
      by (simp add: pollIssueCommentsIssue_def commentBatch_def Let_def split_beta commentLoop_ok
          del: commentLoop.simps)
  qed
qed

lemma pollIssueCommentsIssue_poller_fields [simp]:
  "lastCommentCheck (snd (pollIssueCommentsIssue repo acc issue)) = lastCommentCheck (snd acc)"
  "lastIssueCheck (snd (pollIssueCommentsIssue repo acc issue)) = lastIssueCheck (snd acc)"
  "knownPRs (snd (pollIssueCommentsIssue repo acc issue)) = knownPRs (snd acc)"
  "knownReviews (snd (pollIssueCommentsIssue repo acc issue)) = knownReviews (snd acc)"
  by (simp_all add: pollIssueCommentsIssue_def Let_def split_beta split: option.splits list.splits)

lemma commentBatch_cong:
  "lastSeen m' (oi_number issue) = lastSeen m (oi_number issue) \<Longrightarrow>
   commentBatch repo m' issue = commentBatch repo m issue"
  by (simp add: commentBatch_def)

lemma comments_fold_frame:
  "n \<notin> oi_number ` set issues \<Longrightarrow>
   fst (foldl (pollIssueCommentsIssue repo) acc issues) n = fst acc n"
  by (induction issues arbitrary: acc)
    (simp_all add: pollIssueCommentsIssue_map split: option.splits)

lemma comments_fold_lookup:
  assumes "distinct (map oi_number issues)" and "issue \<in> set issues"
  shows "fst (foldl (pollIssueCommentsIssue repo) acc issues) (oi_number issue) =
           (case commentBatch repo (fst acc) issue of
              None \<Rightarrow> fst acc (oi_number issue)
            | Some cs \<Rightarrow> Some (Max (comment_id ` set cs)))"
  using assms
proof (induction issues arbitrary: acc)
  case Nil
  then show ?case by simp
next
  case (Cons i rest)
  show ?case
  proof (cases "issue = i")
    case True
    from Cons.prems(1) True have "oi_number i \<notin> oi_number ` set rest" by auto
    from comments_fold_frame [OF this] True show ?thesis
      by (simp add: pollIssueCommentsIssue_map split: option.splits)
  next
    case False
    with Cons.prems have mem: "issue \<in> set rest" and d: "distinct (map oi_number rest)" by auto
    from mem have "oi_number issue \<in> set (map oi_number rest)" by simp
    with Cons.prems(1) have ne: "oi_number i \<noteq> oi_number issue" by auto
    then have same: "fst (pollIssueCommentsIssue repo acc i) (oi_number issue) = fst acc (oi_number issue)"
      by (simp add: pollIssueCommentsIssue_map split: option.splits)
    then have "lastSeen (fst (pollIssueCommentsIssue repo acc i)) (oi_number issue)
                 = lastSeen (fst acc) (oi_number issue)"
      by (simp add: lastSeen_def)
    from commentBatch_cong [OF this] Cons.IH [OF d mem, of "pollIssueCommentsIssue repo acc i"] same
    show ?thesis by (simp split: option.splits)
  qed
qed

lemma comments_fold_poller:
  "lastCommentCheck (snd (foldl (pollIssueCommentsIssue repo) acc issues)) = lastCommentCheck (snd acc)"
  by (induction issues arbitrary: acc) simp_all

lemma pollIssueComments_watermarks:
  "commentWatermarks (pollIssueComments repo (Some issues) P) repo =
     fst (foldl (pollIssueCommentsIssue repo)
            (commentWatermarks P repo, call (ListOpenIssues (rc_owner repo) (rc_name repo)) P) issues)"
  by (simp add: pollIssueComments_def Let_def split_beta commentWatermarks_def)

lemma pollIssueComments_failed:
  "commentWatermarks (pollIssueComments repo None P) repo = commentWatermarks P repo"
  by (simp add: pollIssueComments_def Let_def commentWatermarks_def)

lemma newIssuesLoop_fields [simp]:
  "knownPRs (fst (newIssuesLoop repo issues P)) = knownPRs P"
  "knownReviews (fst (newIssuesLoop repo issues P)) = knownReviews P"
  "lastIssueCheck (fst (newIssuesLoop repo issues P)) = lastIssueCheck P"
  by (induction issues arbitrary: P) (simp_all add: Let_def)

lemma newIssuesLoop_ok: "snd (newIssuesLoop repo issues P) = newIssuesHandled repo issues"
  by (induction issues arbitrary: P) (auto simp: newIssuesHandled_def Let_def)

lemma pollNewIssues_lastIssueCheck:
  "lastIssueCheck (pollNewIssues repo clock response P) =
     (case response of
        None \<Rightarrow> lastIssueCheck P
      | Some (now, issues) \<Rightarrow>
          if newIssuesHandled repo issues then (lastIssueCheck P)(repoKeyOf repo \<mapsto> now)
          else lastIssueCheck P)"
  by (simp add: pollNewIssues_def Let_def split_beta newIssuesLoop_ok split: option.splits)

lemma Max_fresh:
  assumes "finite A" and "x \<in> A" and "(lst::int) \<le> x"
  shows "lst \<le> Max A"
  using assms by (meson Max_ge order_trans)

lemma pullsLoop_keeps:
  assumes "k \<in> knownPRs P"
  shows "k \<in> knownPRs (pullsLoop repo prs P)
         \<or> (\<exists>q \<in> set prs. isAgentPR q \<and> pr_state q = ''closed'' \<and> pr_closeHandlerOk q
              \<and> k = prKeyOf repo (pr_number q))"
  using assms
proof (induction prs arbitrary: P)
  case Nil
  then show ?case by simp
next
  case (Cons p ps)
  show ?case
  proof (cases "isAgentPR p")
    case False
    with Cons.IH [OF Cons.prems] show ?thesis by (auto simp: isAgentPR_def)
  next
    case agent: True
    show ?thesis
    proof (cases "pr_state p = ''closed''")
      case False
      have "k \<in> knownPRs (pollPRReviews repo p (P\<lparr>knownPRs := insert (prKeyOf repo (pr_number p)) (knownPRs P)\<rparr>))"
        using Cons.prems by simp
      from Cons.IH [OF this] agent False show ?thesis by (auto simp: isAgentPR_def Let_def)
    next
      case closed: True
      show ?thesis
      proof (cases "pr_closeHandlerOk p")
        case False
        with agent closed Cons.prems show ?thesis by (simp add: isAgentPR_def Let_def)
      next
        case ok: True
        show ?thesis
        proof (cases "k = prKeyOf repo (pr_number p)")
          case True
          with agent closed ok show ?thesis by auto
        next
          case False
          let ?Q = "(call (OnPRClosed (rc_owner repo) (rc_name repo) (pr_number p))
                      (pollPRReviews repo p (P\<lparr>knownPRs := insert (prKeyOf repo (pr_number p)) (knownPRs P)\<rparr>)))
                    \<lparr>knownPRs := knownPRs P - {prKeyOf repo (pr_number p)},
                      knownReviews := (knownReviews (pollPRReviews repo p
                          (P\<lparr>knownPRs := insert (prKeyOf repo (pr_number p)) (knownPRs P)\<rparr>)))
                        (prKeyOf repo (pr_number p) := None)\<rparr>"
          have "k \<in> knownPRs ?Q" using Cons.prems False by simp
          from Cons.IH [OF this] agent closed ok show ?thesis
            by (auto simp: isAgentPR_def Let_def)
        qed
      qed
    qed
  qed
qed


lemma newIssuesLoop_commentWatermarks:
  "commentWatermarks (fst (newIssuesLoop repo issues P)) repo' = commentWatermarks P repo'"
proof (induction issues arbitrary: P)
  case Nil
  then show ?case by simp
next
  case (Cons i rest)
  have init: "commentWatermarks (Q\<lparr>lastCommentCheck := (lastCommentCheck Q)(repoKeyOf repo \<mapsto> Map.empty)\<rparr>) repo'
                = commentWatermarks Q repo'" if "lastCommentCheck Q (repoKeyOf repo) = None" for Q
    using that by (simp add: commentWatermarks_def)
  have c: "commentWatermarks (call x Q) repo' = commentWatermarks Q repo'" for x Q
    by (simp add: commentWatermarks_def)
  show ?case by (simp add: Let_def Cons.IH init c)
qed

lemma pollNewIssues_commentWatermarks:
  "commentWatermarks (pollNewIssues repo clock response P) repo' = commentWatermarks P repo'"
proof -
  have c: "commentWatermarks (call x Q) repo' = commentWatermarks Q repo'" for x Q
    by (simp add: commentWatermarks_def)
  have u: "commentWatermarks (Q\<lparr>lastIssueCheck := v\<rparr>) repo' = commentWatermarks Q repo'" for v Q
    by (simp add: commentWatermarks_def)
  show ?thesis
    by (simp add: pollNewIssues_def Let_def split_beta newIssuesLoop_commentWatermarks c u
        split: option.splits)
qed

lemma pollIssueComments_other_repo:
  "rk \<noteq> repoKeyOf repo \<Longrightarrow>
   lastCommentCheck (pollIssueComments repo response P) rk = lastCommentCheck P rk"
  by (simp add: pollIssueComments_def Let_def split_beta comments_fold_poller split: option.splits)

lemma example_logins:
  "\<not> isBotUser (Some ''alice'')" "\<not> isBotUser (Some ''bob'')" "\<not> isBotUser (Some ''carol'')"
  "isBotUser (Some ''dependabot[bot]'')"
  by (simp_all add: isBotUser_def toLowerCase_def to_lower_char_def upperCaseLetters_def
      lowerCaseLetters_def endsWith_def)

lemma example_bodies:
  "isTriggerComment (Some ''@agent please fix'') acmeApp"
  "\<not> isTriggerComment (Some ''Seen on main as well'') acmeApp"
  "\<not> isTriggerComment (Some ''Bump version'') acmeApp"
  by (simp_all add: isTriggerComment_def toLowerCase_def to_lower_char_def upperCaseLetters_def
      lowerCaseLetters_def acmeApp_def)

lemma example_keys:
  "repoKeyOf acmeApp = ''acme/app''"
  "prKeyOf acmeApp 11 = ''acme/app#11''"
  "prKeyOf acmeApp 12 = ''acme/app#12''"
  "prKeyOf acmeApp 13 = ''acme/app#13''"
  "rc_owner acmeApp = ''acme''" "rc_name acmeApp = ''app''" "triggerComment acmeApp = ''@agent''"
  by (simp_all add: repoKeyOf_def prKeyOf_def acmeApp_def js_number_to_string_def digits.simps)

lemmas poll_example_defs = example_logins example_bodies example_keys
  closedPR12_def pollerTracking12_def openPR11_def review601_def

lemmas comment_example_defs = comment101_def comment102_def comment103_def openIssue7_def
  openIssue7Shrunk_def openIssue9_def pollerAt_def newIssue7_def

subsection \<open>Closure of an agent pull request\<close>

text \<open>
  C4. Let a listing of pull requests name each number once, and let the closure handler
  return normally for the closed agent pull requests in it (the orchestrator's
  \<open>handlePRClosed\<close> always does). For every pull request of the listing on an agent branch
  whose state is \<^verbatim>\<open>closed\<close>, the poll cycle calls the closure handler for that pull request
  exactly once, and afterwards neither the known-PR set nor the last-seen-review map holds
  an entry under its key.
\<close>

theorem closed_pr_emits_closure_and_drops_entries:
  assumes "distinct (map pr_number prs)" and "q \<in> set prs"
    and "isAgentPR q" and "pr_state q = ''closed''"
    and "\<forall>p \<in> set prs. isAgentPR p \<and> pr_state p = ''closed'' \<longrightarrow> pr_closeHandlerOk p"
  shows "count_list (calls (pollOurPRs repo (Some prs) P))
             (OnPRClosed (rc_owner repo) (rc_name repo) (pr_number q))
           = count_list (calls P) (OnPRClosed (rc_owner repo) (rc_name repo) (pr_number q)) + 1
       \<and> prKeyOf repo (pr_number q) \<notin> knownPRs (pollOurPRs repo (Some prs) P)
       \<and> knownReviews (pollOurPRs repo (Some prs) P) (prKeyOf repo (pr_number q)) = None"
  using pullsLoop_closed [OF assms, of repo "call (ListPulls (rc_owner repo) (rc_name repo)) P"]
    pullsLoop_closed_calls [OF assms(5), of repo "call (ListPulls (rc_owner repo) (rc_name repo)) P" "pr_number q"]
    filter_listed_once [OF assms(1-4)]
  by (simp add: pollOurPRs_def Let_def)

theorem closed_pr_emits_closure_and_drops_entries_witness:
  "distinct (map pr_number [openPR11, closedPR12, foreignPR13])
   \<and> isAgentPR closedPR12 \<and> pr_state closedPR12 = ''closed'' \<and> pr_closeHandlerOk closedPR12
   \<and> isAgentPR openPR11 \<and> pr_state openPR11 \<noteq> ''closed'' \<and> \<not> isAgentPR foreignPR13
   \<and> calls (pollOurPRs acmeApp (Some [openPR11, closedPR12, foreignPR13]) pollerTracking12) =
       [ListPulls ''acme'' ''app'', ListReviews ''acme'' ''app'' 11,
        OnPRReview ''acme'' ''app'' 11 601 ''CHANGES_REQUESTED'',
        ListReviews ''acme'' ''app'' 12, OnPRClosed ''acme'' ''app'' 12]
   \<and> prKeyOf acmeApp 12 = ''acme/app#12''
   \<and> ''acme/app#12'' \<in> knownPRs pollerTracking12
   \<and> knownReviews pollerTracking12 ''acme/app#12'' = Some 500
   \<and> ''acme/app#12'' \<notin> knownPRs (pollOurPRs acmeApp (Some [openPR11, closedPR12, foreignPR13]) pollerTracking12)
   \<and> knownReviews (pollOurPRs acmeApp (Some [openPR11, closedPR12, foreignPR13]) pollerTracking12)
        ''acme/app#12'' = None"
  using closed_pr_emits_closure_and_drops_entries
      [of "[openPR11, closedPR12, foreignPR13]" closedPR12 acmeApp pollerTracking12]
  by (simp add: poller_defs poll_example_defs foreignPR13_def Let_def)

subsection \<open>Advance after consume\<close>

lemma pollPRReviews_keeps:
  "knownReviews P k \<noteq> None \<Longrightarrow> knownReviews (pollPRReviews repo pr P) k \<noteq> None"
  by (simp add: pollPRReviews_knownReviews split: option.splits)

lemma pullsLoop_other_fields [simp]:
  "lastIssueCheck (pullsLoop repo prs P) = lastIssueCheck P"
  "lastCommentCheck (pullsLoop repo prs P) = lastCommentCheck P"
  by (induction prs arbitrary: P) (simp_all add: Let_def)

lemma pullsLoop_keeps_reviews:
  assumes "knownReviews P k \<noteq> None"
  shows "knownReviews (pullsLoop repo prs P) k \<noteq> None
         \<or> (\<exists>q \<in> set prs. isAgentPR q \<and> pr_state q = ''closed'' \<and> pr_closeHandlerOk q
              \<and> k = prKeyOf repo (pr_number q))"
  using assms
proof (induction prs arbitrary: P)
  case Nil
  then show ?case by simp
next
  case (Cons p ps)
  let ?P1 = "pollPRReviews repo p (P\<lparr>knownPRs := insert (prKeyOf repo (pr_number p)) (knownPRs P)\<rparr>)"
  have k1: "knownReviews ?P1 k \<noteq> None" using Cons.prems by (intro pollPRReviews_keeps) simp
  show ?case
  proof (cases "isAgentPR p")
    case False
    with Cons.IH [OF Cons.prems] show ?thesis by (auto simp: isAgentPR_def)
  next
    case agent: True
    show ?thesis
    proof (cases "pr_state p = ''closed''")
      case False
      from Cons.IH [OF k1] agent False show ?thesis by (auto simp: isAgentPR_def Let_def)
    next
      case closed: True
      show ?thesis
      proof (cases "pr_closeHandlerOk p")
        case False
        with agent closed k1 show ?thesis by (simp add: isAgentPR_def Let_def)
      next
        case ok: True
        show ?thesis
        proof (cases "k = prKeyOf repo (pr_number p)")
          case True
          with agent closed ok show ?thesis by auto
        next
          case False
          let ?Q = "(call (OnPRClosed (rc_owner repo) (rc_name repo) (pr_number p)) ?P1)
                    \<lparr>knownPRs := knownPRs (call (OnPRClosed (rc_owner repo) (rc_name repo) (pr_number p)) ?P1)
                                    - {prKeyOf repo (pr_number p)},
                      knownReviews := (knownReviews (call (OnPRClosed (rc_owner repo) (rc_name repo) (pr_number p)) ?P1))
                        (prKeyOf repo (pr_number p) := None)\<rparr>"
          have "knownReviews ?Q k \<noteq> None" using k1 False by simp
          from Cons.IH [OF this] agent closed ok show ?thesis
            by (auto simp: isAgentPR_def Let_def)
        qed
      qed
    qed
  qed
qed

lemma pullsLoop_frame_agent:
  "k \<notin> prKeyOf repo ` pr_number ` set (filter isAgentPR prs) \<Longrightarrow>
   (k \<in> knownPRs (pullsLoop repo prs P) \<longleftrightarrow> k \<in> knownPRs P)
   \<and> knownReviews (pullsLoop repo prs P) k = knownReviews P k"
proof (induction prs arbitrary: P)
  case Nil
  then show ?case by simp
next
  case (Cons p ps)
  show ?case
  proof (cases "isAgentPR p")
    case False
    with Cons.prems have "k \<notin> prKeyOf repo ` pr_number ` set (filter isAgentPR ps)" by simp
    from Cons.IH [OF this] False show ?thesis by (simp add: isAgentPR_def)
  next
    case True
    with Cons.prems have k: "k \<noteq> prKeyOf repo (pr_number p)"
      and ks: "k \<notin> prKeyOf repo ` pr_number ` set (filter isAgentPR ps)" by auto
    note ih = Cons.IH [OF ks]
    from k True show ?thesis
      by (simp add: Let_def ih pollPRReviews_other_key isAgentPR_def)
  qed
qed

lemma reviewBatch_cong:
  "knownReviews P' (prKeyOf repo (pr_number pr)) = knownReviews P (prKeyOf repo (pr_number pr)) \<Longrightarrow>
   reviewBatch repo P' pr = reviewBatch repo P pr"
  by (simp add: reviewBatch_def lastSeen_def split: option.splits)

lemma pollPRReviews_batch:
  "knownReviews (pollPRReviews repo pr P) (prKeyOf repo (pr_number pr)) =
     (case reviewBatch repo P pr of
        None \<Rightarrow> knownReviews P (prKeyOf repo (pr_number pr))
      | Some rs \<Rightarrow> Some (Max (review_id ` set rs)))"
  by (simp add: pollPRReviews_knownReviews reviewBatch_def split: option.splits)

lemma pullsLoop_open:
  assumes "distinct (map pr_number prs)" and "q \<in> set prs"
    and "isAgentPR q" and "pr_state q \<noteq> ''closed''"
    and "\<forall>p \<in> set prs. isAgentPR p \<and> pr_state p = ''closed'' \<longrightarrow> pr_closeHandlerOk p"
  shows "knownReviews (pullsLoop repo prs P) (prKeyOf repo (pr_number q)) =
           (case reviewBatch repo P q of
              None \<Rightarrow> knownReviews P (prKeyOf repo (pr_number q))
            | Some rs \<Rightarrow> Some (Max (review_id ` set rs)))
         \<and> prKeyOf repo (pr_number q) \<in> knownPRs (pullsLoop repo prs P)"
  using assms
proof (induction prs arbitrary: P)
  case Nil
  then show ?case by simp
next
  case (Cons p ps)
  let ?k = "prKeyOf repo (pr_number q)"
  let ?P0 = "P\<lparr>knownPRs := insert (prKeyOf repo (pr_number p)) (knownPRs P)\<rparr>"
  let ?P1 = "pollPRReviews repo p ?P0"
  show ?case
  proof (cases "q = p")
    case True
    from Cons.prems(1) True have "pr_number p \<notin> pr_number ` set ps" by auto
    then have "prKeyOf repo (pr_number p) \<notin> prKeyOf repo ` pr_number ` set ps"
      using prKeyOf_inj by blast
    note fr = pullsLoop_frame [OF this, of ?P1]
    have b: "reviewBatch repo ?P0 p = reviewBatch repo P p" by (rule reviewBatch_cong) simp
    from True Cons.prems(3,4) fr pollPRReviews_batch [of repo p ?P0] b
    show ?thesis by (simp add: Let_def isAgentPR_def split: option.splits)
  next
    case False
    with Cons.prems have q: "q \<in> set ps" and d: "distinct (map pr_number ps)"
      and h: "\<forall>p \<in> set ps. isAgentPR p \<and> pr_state p = ''closed'' \<longrightarrow> pr_closeHandlerOk p"
      by auto
    from q have "pr_number q \<in> set (map pr_number ps)" by simp
    with Cons.prems(1) have "pr_number p \<noteq> pr_number q" by auto
    then have ne: "?k \<noteq> prKeyOf repo (pr_number p)"
      using prKeyOf_inj [of repo "pr_number q" "pr_number p"] by auto
    note ih = Cons.IH [OF d q Cons.prems(3,4) h]
    from Cons.prems(5) have ok: "isAgentPR p \<and> pr_state p = ''closed'' \<longrightarrow> pr_closeHandlerOk p"
      by simp
    have k1: "knownReviews ?P1 ?k = knownReviews P ?k"
      using pollPRReviews_other_key [OF ne, of ?P0] by simp
    show ?thesis
    proof (cases "isAgentPR p")
      case False
      with ih [of P] show ?thesis by (simp add: isAgentPR_def)
    next
      case agent: True
      show ?thesis
      proof (cases "pr_state p = ''closed''")
        case False
        have "reviewBatch repo ?P1 q = reviewBatch repo P q" using k1 by (rule reviewBatch_cong)
        with ih [of ?P1] k1 agent False show ?thesis
          by (simp add: isAgentPR_def Let_def split: option.splits)
      next
        case True
        let ?Q = "(call (OnPRClosed (rc_owner repo) (rc_name repo) (pr_number p)) ?P1)
                    \<lparr>knownPRs := knownPRs (call (OnPRClosed (rc_owner repo) (rc_name repo) (pr_number p)) ?P1)
                                    - {prKeyOf repo (pr_number p)},
                      knownReviews := (knownReviews (call (OnPRClosed (rc_owner repo) (rc_name repo) (pr_number p)) ?P1))
                        (prKeyOf repo (pr_number p) := None)\<rparr>"
        have kq: "knownReviews ?Q ?k = knownReviews P ?k" using k1 ne by simp
        then have "reviewBatch repo ?Q q = reviewBatch repo P q" by (rule reviewBatch_cong)
        with ih [of ?Q] kq agent True ok show ?thesis
          by (simp add: isAgentPR_def Let_def split: option.splits)
      qed
    qed
  qed
qed

lemma comments_fold_other_fields:
  "lastIssueCheck (snd (foldl (pollIssueCommentsIssue repo) acc issues)) = lastIssueCheck (snd acc)"
  "knownPRs (snd (foldl (pollIssueCommentsIssue repo) acc issues)) = knownPRs (snd acc)"
  "knownReviews (snd (foldl (pollIssueCommentsIssue repo) acc issues)) = knownReviews (snd acc)"
  by (induction issues arbitrary: acc) simp_all

lemma pollIssueComments_other_fields:
  "lastIssueCheck (pollIssueComments repo response P) = lastIssueCheck P"
  "knownPRs (pollIssueComments repo response P) = knownPRs P"
  "knownReviews (pollIssueComments repo response P) = knownReviews P"
  by (simp_all add: pollIssueComments_def Let_def split_beta comments_fold_other_fields
      split: option.splits)

lemma pollNewIssues_other_fields:
  "knownPRs (pollNewIssues repo clock response P) = knownPRs P"
  "knownReviews (pollNewIssues repo clock response P) = knownReviews P"
  by (simp_all add: pollNewIssues_def Let_def split_beta split: option.splits)

lemma pollOurPRs_other_fields:
  "lastIssueCheck (pollOurPRs repo response P) = lastIssueCheck P"
  "lastCommentCheck (pollOurPRs repo response P) = lastCommentCheck P"
  by (simp_all add: pollOurPRs_def Let_def split: option.splits)

lemma pollIssueComments_unlisted:
  "n \<notin> oi_number ` set issues \<Longrightarrow>
   commentWatermarks (pollIssueComments repo (Some issues) P) repo n = commentWatermarks P repo n"
  by (simp add: pollIssueComments_watermarks comments_fold_frame)

text \<open>
  C3 (as amended). A watermark is written only after its whole batch has been consumed;
  every step of a cycle is pinned down for every kind of watermark.
  \<^item> Comments. The watermark of a listed open issue (each issue listed once) becomes the
    largest comment id of the batch when the batch was consumed in full, and stays what it
    was when the issue is skipped, the request fails, a handler throws or the batch is
    empty; this holds for every issue of the listing at once, so a failure for one issue
    does not keep another from advancing. The watermark of an issue that is not listed, a
    failed listing, the polling of another repository, of new issues and of pull requests
    leave the comment watermarks alone.
  \<^item> Reviews. In a listing of pull requests (each number once, closure handlers returning
    normally), the watermark of an open agent pull request follows the same rule, and the
    pull request is in the known-PR set afterwards. The entry of a key that belongs to no
    listed agent pull request stays as it is, a failed listing changes nothing, and an entry disappears only when its
    pull request is observed closed and the closure handler has returned. Polling comments
    or new issues leaves the review watermarks and the known-PR set alone.
  \<^item> A consumed batch that holds an id at or above the stored watermark moves the
    watermark to a value at or above it.
  \<^item> The issue timestamp of a repository becomes the clock reading taken after the
    listing when every issue of the listing was handled, and is unchanged otherwise; the
    other two steps of the cycle leave it alone.
  \<^item> A known-PR key leaves the set only when a pull request with that key is observed
    closed and its closure handler has returned.
\<close>

theorem watermarks_advance_after_consume:
  "(distinct (map oi_number issues) \<and> issue \<in> set issues \<longrightarrow>
      commentWatermarks (pollIssueComments repo (Some issues) P) repo (oi_number issue) =
        (case commentBatch repo (commentWatermarks P repo) issue of
           None \<Rightarrow> commentWatermarks P repo (oi_number issue)
         | Some cs \<Rightarrow> Some (Max (comment_id ` set cs))))
   \<and> (n \<notin> oi_number ` set issues \<longrightarrow>
        commentWatermarks (pollIssueComments repo (Some issues) P) repo n = commentWatermarks P repo n)
   \<and> commentWatermarks (pollIssueComments repo None P) repo = commentWatermarks P repo
   \<and> (rk \<noteq> repoKeyOf repo \<longrightarrow>
        lastCommentCheck (pollIssueComments repo openIssues P) rk = lastCommentCheck P rk)
   \<and> commentWatermarks (pollNewIssues repo clock newIssues P) repo' = commentWatermarks P repo'
   \<and> lastCommentCheck (pollOurPRs repo pulls P) = lastCommentCheck P
   \<and> (commentBatch repo m issue = Some cs
        \<and> (\<exists>c \<in> set cs. lastSeen m (oi_number issue) \<le> comment_id c) \<longrightarrow>
        lastSeen m (oi_number issue) \<le> Max (comment_id ` set cs))
   \<and> (distinct (map pr_number prs) \<and> q \<in> set prs \<and> isAgentPR q \<and> pr_state q \<noteq> ''closed''
        \<and> (\<forall>p \<in> set prs. isAgentPR p \<and> pr_state p = ''closed'' \<longrightarrow> pr_closeHandlerOk p) \<longrightarrow>
        knownReviews (pollOurPRs repo (Some prs) Q) (prKeyOf repo (pr_number q)) =
          (case reviewBatch repo Q q of
             None \<Rightarrow> knownReviews Q (prKeyOf repo (pr_number q))
           | Some rs \<Rightarrow> Some (Max (review_id ` set rs)))
        \<and> prKeyOf repo (pr_number q) \<in> knownPRs (pollOurPRs repo (Some prs) Q))
   \<and> (ku \<notin> prKeyOf repo ` pr_number ` set (filter isAgentPR others) \<longrightarrow>
        knownReviews (pollOurPRs repo (Some others) Q) ku = knownReviews Q ku
        \<and> (ku \<in> knownPRs (pollOurPRs repo (Some others) Q) \<longleftrightarrow> ku \<in> knownPRs Q))
   \<and> knownReviews (pollOurPRs repo None Q) = knownReviews Q
   \<and> knownPRs (pollOurPRs repo None Q) = knownPRs Q
   \<and> (knownReviews Q kr \<noteq> None \<longrightarrow>
        knownReviews (pollOurPRs repo pulls Q) kr \<noteq> None
        \<or> (\<exists>prs. pulls = Some prs
              \<and> (\<exists>q \<in> set prs. isAgentPR q \<and> pr_state q = ''closed'' \<and> pr_closeHandlerOk q
                    \<and> kr = prKeyOf repo (pr_number q))))
   \<and> (k \<in> knownPRs Q \<longrightarrow>
        k \<in> knownPRs (pollOurPRs repo pulls Q)
        \<or> (\<exists>prs. pulls = Some prs
              \<and> (\<exists>q \<in> set prs. isAgentPR q \<and> pr_state q = ''closed'' \<and> pr_closeHandlerOk q
                    \<and> k = prKeyOf repo (pr_number q))))
   \<and> knownReviews (pollPRReviews repo pr Q) =
        (case reviewBatch repo Q pr of
           None \<Rightarrow> knownReviews Q
         | Some rs \<Rightarrow> (knownReviews Q)(prKeyOf repo (pr_number pr) \<mapsto> Max (review_id ` set rs)))
   \<and> (reviewBatch repo Q pr = Some rs
        \<and> (\<exists>r \<in> set rs. lastSeen (knownReviews Q) (prKeyOf repo (pr_number pr)) \<le> review_id r) \<longrightarrow>
        lastSeen (knownReviews Q) (prKeyOf repo (pr_number pr)) \<le> Max (review_id ` set rs))
   \<and> knownPRs (pollPRReviews repo pr Q) = knownPRs Q
   \<and> knownReviews (pollIssueComments repo openIssues P) = knownReviews P
   \<and> knownReviews (pollNewIssues repo clock newIssues P) = knownReviews P
   \<and> knownPRs (pollIssueComments repo openIssues P) = knownPRs P
   \<and> knownPRs (pollNewIssues repo clock newIssues P) = knownPRs P
   \<and> lastIssueCheck (pollNewIssues repo clock newIssues P) =
        (case newIssues of
           None \<Rightarrow> lastIssueCheck P
         | Some (now, listed) \<Rightarrow>
             if newIssuesHandled repo listed then (lastIssueCheck P)(repoKeyOf repo \<mapsto> now)
             else lastIssueCheck P)
   \<and> lastIssueCheck (pollIssueComments repo openIssues P) = lastIssueCheck P
   \<and> lastIssueCheck (pollOurPRs repo pulls P) = lastIssueCheck P"
proof -
  have c1: "distinct (map oi_number issues) \<and> issue \<in> set issues \<longrightarrow>
      commentWatermarks (pollIssueComments repo (Some issues) P) repo (oi_number issue) =
        (case commentBatch repo (commentWatermarks P repo) issue of
           None \<Rightarrow> commentWatermarks P repo (oi_number issue)
         | Some cs \<Rightarrow> Some (Max (comment_id ` set cs)))"
  proof
    assume a: "distinct (map oi_number issues) \<and> issue \<in> set issues"
    then have d: "distinct (map oi_number issues)" and mem: "issue \<in> set issues" by simp_all
    from comments_fold_lookup [OF d mem, of repo
        "(commentWatermarks P repo, call (ListOpenIssues (rc_owner repo) (rc_name repo)) P)"]
    show "commentWatermarks (pollIssueComments repo (Some issues) P) repo (oi_number issue) =
        (case commentBatch repo (commentWatermarks P repo) issue of
           None \<Rightarrow> commentWatermarks P repo (oi_number issue)
         | Some cs \<Rightarrow> Some (Max (comment_id ` set cs)))"
      by (simp add: pollIssueComments_watermarks split: option.splits)
  qed
  have c2: "n \<notin> oi_number ` set issues \<longrightarrow>
        commentWatermarks (pollIssueComments repo (Some issues) P) repo n = commentWatermarks P repo n"
    using pollIssueComments_unlisted by blast
  have c3: "commentWatermarks (pollIssueComments repo None P) repo = commentWatermarks P repo"
    by (rule pollIssueComments_failed)
  have c4: "rk \<noteq> repoKeyOf repo \<longrightarrow>
        lastCommentCheck (pollIssueComments repo openIssues P) rk = lastCommentCheck P rk"
    using pollIssueComments_other_repo by blast
  have c5: "commentWatermarks (pollNewIssues repo clock newIssues P) repo' = commentWatermarks P repo'"
    by (rule pollNewIssues_commentWatermarks)
  have c6: "lastCommentCheck (pollOurPRs repo pulls P) = lastCommentCheck P"
    by (rule pollOurPRs_other_fields)
  have c7: "commentBatch repo m issue = Some cs
        \<and> (\<exists>c \<in> set cs. lastSeen m (oi_number issue) \<le> comment_id c) \<longrightarrow>
        lastSeen m (oi_number issue) \<le> Max (comment_id ` set cs)"
  proof
    assume "commentBatch repo m issue = Some cs
        \<and> (\<exists>c \<in> set cs. lastSeen m (oi_number issue) \<le> comment_id c)"
    then obtain c where "c \<in> set cs" and "lastSeen m (oi_number issue) \<le> comment_id c" by blast
    then show "lastSeen m (oi_number issue) \<le> Max (comment_id ` set cs)"
      by (intro Max_fresh [of _ "comment_id c"]) simp_all
  qed
  have r1: "distinct (map pr_number prs) \<and> q \<in> set prs \<and> isAgentPR q \<and> pr_state q \<noteq> ''closed''
        \<and> (\<forall>p \<in> set prs. isAgentPR p \<and> pr_state p = ''closed'' \<longrightarrow> pr_closeHandlerOk p) \<longrightarrow>
        knownReviews (pollOurPRs repo (Some prs) Q) (prKeyOf repo (pr_number q)) =
          (case reviewBatch repo Q q of
             None \<Rightarrow> knownReviews Q (prKeyOf repo (pr_number q))
           | Some rs \<Rightarrow> Some (Max (review_id ` set rs)))
        \<and> prKeyOf repo (pr_number q) \<in> knownPRs (pollOurPRs repo (Some prs) Q)"
  proof
    assume a: "distinct (map pr_number prs) \<and> q \<in> set prs \<and> isAgentPR q \<and> pr_state q \<noteq> ''closed''
        \<and> (\<forall>p \<in> set prs. isAgentPR p \<and> pr_state p = ''closed'' \<longrightarrow> pr_closeHandlerOk p)"
    then have d: "distinct (map pr_number prs)" and mem: "q \<in> set prs" and ag: "isAgentPR q"
      and op: "pr_state q \<noteq> ''closed''"
      and ok: "\<forall>p \<in> set prs. isAgentPR p \<and> pr_state p = ''closed'' \<longrightarrow> pr_closeHandlerOk p"
      by simp_all
    let ?Q1 = "call (ListPulls (rc_owner repo) (rc_name repo)) Q"
    have b: "reviewBatch repo ?Q1 q = reviewBatch repo Q q" by (rule reviewBatch_cong) simp
    from pullsLoop_open [OF d mem ag op ok, of repo ?Q1] b
    show "knownReviews (pollOurPRs repo (Some prs) Q) (prKeyOf repo (pr_number q)) =
          (case reviewBatch repo Q q of
             None \<Rightarrow> knownReviews Q (prKeyOf repo (pr_number q))
           | Some rs \<Rightarrow> Some (Max (review_id ` set rs)))
        \<and> prKeyOf repo (pr_number q) \<in> knownPRs (pollOurPRs repo (Some prs) Q)"
      by (simp add: pollOurPRs_def Let_def split: option.splits)
  qed
  have r2: "ku \<notin> prKeyOf repo ` pr_number ` set (filter isAgentPR others) \<longrightarrow>
        knownReviews (pollOurPRs repo (Some others) Q) ku = knownReviews Q ku
        \<and> (ku \<in> knownPRs (pollOurPRs repo (Some others) Q) \<longleftrightarrow> ku \<in> knownPRs Q)"
    using pullsLoop_frame_agent [of ku repo others "call (ListPulls (rc_owner repo) (rc_name repo)) Q"]
    by (simp add: pollOurPRs_def Let_def)
  have r3: "knownReviews (pollOurPRs repo None Q) = knownReviews Q"
    by (simp add: pollOurPRs_def Let_def)
  have r3': "knownPRs (pollOurPRs repo None Q) = knownPRs Q"
    by (simp add: pollOurPRs_def Let_def)
  have r4: "knownReviews Q kr \<noteq> None \<longrightarrow>
        knownReviews (pollOurPRs repo pulls Q) kr \<noteq> None
        \<or> (\<exists>prs. pulls = Some prs
              \<and> (\<exists>q \<in> set prs. isAgentPR q \<and> pr_state q = ''closed'' \<and> pr_closeHandlerOk q
                    \<and> kr = prKeyOf repo (pr_number q)))"
  proof
    assume k: "knownReviews Q kr \<noteq> None"
    show "knownReviews (pollOurPRs repo pulls Q) kr \<noteq> None
        \<or> (\<exists>prs. pulls = Some prs
              \<and> (\<exists>q \<in> set prs. isAgentPR q \<and> pr_state q = ''closed'' \<and> pr_closeHandlerOk q
                    \<and> kr = prKeyOf repo (pr_number q)))"
    proof (cases pulls)
      case None
      with k show ?thesis by (simp add: pollOurPRs_def Let_def)
    next
      case (Some prs)
      from k have "knownReviews (call (ListPulls (rc_owner repo) (rc_name repo)) Q) kr \<noteq> None" by simp
      from pullsLoop_keeps_reviews [OF this, of repo prs] Some show ?thesis
        by (simp add: pollOurPRs_def Let_def)
    qed
  qed
  have k1: "k \<in> knownPRs Q \<longrightarrow>
        k \<in> knownPRs (pollOurPRs repo pulls Q)
        \<or> (\<exists>prs. pulls = Some prs
              \<and> (\<exists>q \<in> set prs. isAgentPR q \<and> pr_state q = ''closed'' \<and> pr_closeHandlerOk q
                    \<and> k = prKeyOf repo (pr_number q)))"
  proof
    assume k: "k \<in> knownPRs Q"
    show "k \<in> knownPRs (pollOurPRs repo pulls Q)
        \<or> (\<exists>prs. pulls = Some prs
              \<and> (\<exists>q \<in> set prs. isAgentPR q \<and> pr_state q = ''closed'' \<and> pr_closeHandlerOk q
                    \<and> k = prKeyOf repo (pr_number q)))"
    proof (cases pulls)
      case None
      with k show ?thesis by (simp add: pollOurPRs_def Let_def)
    next
      case (Some prs)
      from k have "k \<in> knownPRs (call (ListPulls (rc_owner repo) (rc_name repo)) Q)" by simp
      from pullsLoop_keeps [OF this, of repo prs] Some show ?thesis
        by (simp add: pollOurPRs_def Let_def)
    qed
  qed
  have r5: "knownReviews (pollPRReviews repo pr Q) =
        (case reviewBatch repo Q pr of
           None \<Rightarrow> knownReviews Q
         | Some rs \<Rightarrow> (knownReviews Q)(prKeyOf repo (pr_number pr) \<mapsto> Max (review_id ` set rs)))"
    by (simp add: pollPRReviews_knownReviews reviewBatch_def split: option.splits)
  have r6: "reviewBatch repo Q pr = Some rs
        \<and> (\<exists>r \<in> set rs. lastSeen (knownReviews Q) (prKeyOf repo (pr_number pr)) \<le> review_id r) \<longrightarrow>
        lastSeen (knownReviews Q) (prKeyOf repo (pr_number pr)) \<le> Max (review_id ` set rs)"
  proof
    assume "reviewBatch repo Q pr = Some rs
        \<and> (\<exists>r \<in> set rs. lastSeen (knownReviews Q) (prKeyOf repo (pr_number pr)) \<le> review_id r)"
    then obtain r where "r \<in> set rs"
      and "lastSeen (knownReviews Q) (prKeyOf repo (pr_number pr)) \<le> review_id r" by blast
    then show "lastSeen (knownReviews Q) (prKeyOf repo (pr_number pr)) \<le> Max (review_id ` set rs)"
      by (intro Max_fresh [of _ "review_id r"]) simp_all
  qed
  have r7: "knownPRs (pollPRReviews repo pr Q) = knownPRs Q" by simp
  have f1: "knownReviews (pollIssueComments repo openIssues P) = knownReviews P"
    by (rule pollIssueComments_other_fields)
  have f2: "knownReviews (pollNewIssues repo clock newIssues P) = knownReviews P"
    by (rule pollNewIssues_other_fields)
  have f3: "knownPRs (pollIssueComments repo openIssues P) = knownPRs P"
    by (rule pollIssueComments_other_fields)
  have f4: "knownPRs (pollNewIssues repo clock newIssues P) = knownPRs P"
    by (rule pollNewIssues_other_fields)
  have t1: "lastIssueCheck (pollNewIssues repo clock newIssues P) =
        (case newIssues of
           None \<Rightarrow> lastIssueCheck P
         | Some (now, listed) \<Rightarrow>
             if newIssuesHandled repo listed then (lastIssueCheck P)(repoKeyOf repo \<mapsto> now)
             else lastIssueCheck P)"
    by (rule pollNewIssues_lastIssueCheck)
  have t2: "lastIssueCheck (pollIssueComments repo openIssues P) = lastIssueCheck P"
    by (rule pollIssueComments_other_fields)
  have t3: "lastIssueCheck (pollOurPRs repo pulls P) = lastIssueCheck P"
    by (rule pollOurPRs_other_fields)
  show ?thesis
    by (intro conjI; fact)
qed

text \<open>
  The claim as stated, for arbitrary API responses, fails in two ways. A non-empty batch
  holding only ids below the stored watermark moves the watermark down: issue 7 at 103
  answers with comments 101 and 102 and ends at 102; pull request 11 at 700 answers with
  review 601 and ends at 601. And a listing that reports a tracked pull request as closed
  deletes its entries: the last-seen review id read by the poller drops from 500 to 0 and
  the key leaves the known-PR set.
\<close>

theorem watermark_decrease_counterexample:
  "commentWatermarks (pollerAt 103) acmeApp 7 = Some 103
   \<and> commentWatermarks (pollIssueComments acmeApp (Some [openIssue7Shrunk]) (pollerAt 103)) acmeApp 7
       = Some 102
   \<and> knownReviews pollerAhead11 ''acme/app#11'' = Some 700
   \<and> knownReviews (pollOurPRs acmeApp (Some [openPR11]) pollerAhead11) ''acme/app#11'' = Some 601
   \<and> lastSeen (knownReviews pollerTracking12) ''acme/app#12'' = 500
   \<and> lastSeen (knownReviews (pollOurPRs acmeApp (Some [closedPR12]) pollerTracking12)) ''acme/app#12'' = 0
   \<and> ''acme/app#12'' \<in> knownPRs pollerTracking12
   \<and> ''acme/app#12'' \<notin> knownPRs (pollOurPRs acmeApp (Some [closedPR12]) pollerTracking12)"
  by (simp add: poller_defs poll_example_defs comment_example_defs pollerAhead11_def Let_def)

theorem watermarks_advance_after_consume_witness:
  "distinct (map oi_number [openIssue7, openIssue9])
   \<and> commentWatermarks (pollerAt 100) acmeApp 7 = Some 100
   \<and> commentWatermarks (pollerAt 100) acmeApp 9 = Some 90
   \<and> commentBatch acmeApp (commentWatermarks (pollerAt 100) acmeApp) openIssue7
       = Some [comment101, comment102, comment103]
   \<and> commentBatch acmeApp (commentWatermarks (pollerAt 100) acmeApp) openIssue9 = None
   \<and> commentWatermarks (pollIssueComments acmeApp (Some [openIssue7, openIssue9]) (pollerAt 100)) acmeApp 7
       = Some 103
   \<and> commentWatermarks (pollIssueComments acmeApp (Some [openIssue7, openIssue9]) (pollerAt 100)) acmeApp 9
       = Some 90
   \<and> 8 \<notin> oi_number ` set [openIssue7, openIssue9]
   \<and> commentWatermarks (pollIssueComments acmeApp (Some [openIssue7, openIssue9]) (pollerAt 100)) acmeApp 8
       = None
   \<and> ''other/repo'' \<noteq> repoKeyOf acmeApp
   \<and> lastSeen (commentWatermarks (pollerAt 100) acmeApp) 7 \<le> comment_id comment103
   \<and> lastSeen (commentWatermarks (pollerAt 100) acmeApp) 7
       \<le> Max (comment_id ` set [comment101, comment102, comment103])
   \<and> distinct (map pr_number [openPR11, closedPR12, foreignPR13])
   \<and> isAgentPR openPR11 \<and> pr_state openPR11 \<noteq> ''closed''
   \<and> isAgentPR closedPR12 \<and> pr_closeHandlerOk closedPR12 \<and> \<not> isAgentPR foreignPR13
   \<and> reviewBatch acmeApp pollerTracking12 openPR11 = Some [review601]
   \<and> knownReviews (pollOurPRs acmeApp (Some [openPR11, closedPR12, foreignPR13]) pollerTracking12)
        ''acme/app#11'' = Some 601
   \<and> ''acme/app#11'' \<in> knownPRs (pollOurPRs acmeApp (Some [openPR11, closedPR12, foreignPR13]) pollerTracking12)
   \<and> filter isAgentPR [openPR11, foreignPR13] = [openPR11]
   \<and> ''acme/app#12'' \<notin> prKeyOf acmeApp ` pr_number ` set (filter isAgentPR [openPR11, foreignPR13])
   \<and> knownReviews pollerTracking12 ''acme/app#12'' = Some 500
   \<and> knownReviews (pollOurPRs acmeApp (Some [openPR11, foreignPR13]) pollerTracking12) ''acme/app#12''
       = Some 500
   \<and> ''acme/app#12'' \<in> knownPRs pollerTracking12
   \<and> ''acme/app#12'' \<in> knownPRs (pollOurPRs acmeApp (Some [openPR11, foreignPR13]) pollerTracking12)
   \<and> knownReviews (pollPRReviews acmeApp openPR11 pollerTracking12) ''acme/app#11'' = Some 601
   \<and> lastSeen (knownReviews pollerTracking12) (prKeyOf acmeApp 11) \<le> review_id review601
   \<and> lastIssueCheck (pollNewIssues acmeApp 1700000000000 (Some (1700000060000, [newIssue7])) (pollerAt 100))
        ''acme/app'' = Some 1700000060000"
proof -
  have e1: "distinct (map oi_number [openIssue7, openIssue9])
      \<and> 8 \<notin> oi_number ` set [openIssue7, openIssue9]"
    by (simp add: openIssue7_def openIssue9_def)
  have e2: "commentWatermarks (pollerAt 100) acmeApp 7 = Some 100
      \<and> commentWatermarks (pollerAt 100) acmeApp 9 = Some 90
      \<and> commentWatermarks (pollerAt 100) acmeApp 8 = None"
    by (simp add: commentWatermarks_def pollerAt_def freshPoller_def newPoller_def example_keys)
  have e3: "commentBatch acmeApp (commentWatermarks (pollerAt 100) acmeApp) openIssue7
       = Some [comment101, comment102, comment103]
     \<and> commentBatch acmeApp (commentWatermarks (pollerAt 100) acmeApp) openIssue9 = None"
    by (simp add: poller_defs poll_example_defs comment_example_defs Let_def)
  have e5: "''other/repo'' \<noteq> repoKeyOf acmeApp
     \<and> lastSeen (commentWatermarks (pollerAt 100) acmeApp) 7 \<le> comment_id comment103
     \<and> lastSeen (commentWatermarks (pollerAt 100) acmeApp) 7
          \<le> Max (comment_id ` set [comment101, comment102, comment103])"
    by (simp add: poller_defs poll_example_defs comment_example_defs Let_def)
  have e5': "Max (comment_id ` set [comment101, comment102, comment103]) = 103"
    by (simp add: comment_example_defs)
  have e6: "distinct (map pr_number [openPR11, closedPR12, foreignPR13])
     \<and> isAgentPR openPR11 \<and> pr_state openPR11 \<noteq> ''closed''
     \<and> isAgentPR closedPR12 \<and> pr_closeHandlerOk closedPR12 \<and> \<not> isAgentPR foreignPR13"
    by (simp add: poller_defs poll_example_defs foreignPR13_def)
  then have e6': "\<forall>p \<in> set [openPR11, closedPR12, foreignPR13].
       isAgentPR p \<and> pr_state p = ''closed'' \<longrightarrow> pr_closeHandlerOk p"
    by simp
  have e7: "reviewBatch acmeApp pollerTracking12 openPR11 = Some [review601]
     \<and> Max (review_id ` set [review601]) = 601
     \<and> prKeyOf acmeApp (pr_number openPR11) = ''acme/app#11''
     \<and> lastSeen (knownReviews pollerTracking12) (prKeyOf acmeApp 11) \<le> review_id review601
     \<and> knownReviews (pollPRReviews acmeApp openPR11 pollerTracking12) ''acme/app#11'' = Some 601"
    by (simp add: poller_defs poll_example_defs Let_def)
  have e8: "filter isAgentPR [openPR11, foreignPR13] = [openPR11]
     \<and> ''acme/app#12'' \<notin> prKeyOf acmeApp ` pr_number ` set (filter isAgentPR [openPR11, foreignPR13])
     \<and> knownReviews pollerTracking12 ''acme/app#12'' = Some 500
     \<and> ''acme/app#12'' \<in> knownPRs pollerTracking12"
    by (simp add: poller_defs poll_example_defs foreignPR13_def)
  have e9: "lastIssueCheck (pollNewIssues acmeApp 1700000000000 (Some (1700000060000, [newIssue7])) (pollerAt 100))
        ''acme/app'' = Some 1700000060000"
    by (simp add: poller_defs poll_example_defs comment_example_defs Let_def)
  note inst = watermarks_advance_after_consume [where issues = "[openIssue7, openIssue9]"
      and repo = acmeApp and P = "pollerAt 100" and n = 8 and rk = "''other/repo''"
      and openIssues = "Some [openIssue7, openIssue9]" and clock = 1700000000000
      and newIssues = "Some (1700000060000, [newIssue7])" and repo' = acmeApp
      and pulls = "Some [openPR11]" and m = "commentWatermarks (pollerAt 100) acmeApp"
      and cs = "[comment101, comment102, comment103]"
      and prs = "[openPR11, closedPR12, foreignPR13]" and q = openPR11 and Q = pollerTracking12
      and ku = "''acme/app#12''" and others = "[openPR11, foreignPR13]" and kr = "''acme/app#12''"
      and k = "''acme/app#12''" and pr = openPR11 and rs = "[review601]"]
  have w7: "commentWatermarks (pollIssueComments acmeApp (Some [openIssue7, openIssue9]) (pollerAt 100)) acmeApp 7
       = Some 103"
    using inst [where issue = openIssue7] e1 e3 e5' by (simp add: openIssue7_def)
  have w9: "commentWatermarks (pollIssueComments acmeApp (Some [openIssue7, openIssue9]) (pollerAt 100)) acmeApp 9
       = Some 90"
    using inst [where issue = openIssue9] e1 e2 e3 by (simp add: openIssue9_def)
  have w8: "commentWatermarks (pollIssueComments acmeApp (Some [openIssue7, openIssue9]) (pollerAt 100)) acmeApp 8
       = None"
    using inst [where issue = openIssue7] e1 e2 by simp
  have w11: "knownReviews (pollOurPRs acmeApp (Some [openPR11, closedPR12, foreignPR13]) pollerTracking12)
        ''acme/app#11'' = Some 601
     \<and> ''acme/app#11'' \<in> knownPRs (pollOurPRs acmeApp (Some [openPR11, closedPR12, foreignPR13]) pollerTracking12)"
    using inst [where issue = openIssue7] e6 e6' e7 by simp
  have "knownReviews (pollOurPRs acmeApp (Some [openPR11, foreignPR13]) pollerTracking12) ''acme/app#12''
       = knownReviews pollerTracking12 ''acme/app#12''
     \<and> (''acme/app#12'' \<in> knownPRs (pollOurPRs acmeApp (Some [openPR11, foreignPR13]) pollerTracking12)
          \<longleftrightarrow> ''acme/app#12'' \<in> knownPRs pollerTracking12)"
    using inst [where issue = openIssue7, THEN conjunct2, THEN conjunct2, THEN conjunct2,
        THEN conjunct2, THEN conjunct2, THEN conjunct2, THEN conjunct2, THEN conjunct2,
        THEN conjunct1] e8
    by blast
  with e8 have w12: "knownReviews (pollOurPRs acmeApp (Some [openPR11, foreignPR13]) pollerTracking12) ''acme/app#12''
       = Some 500
     \<and> ''acme/app#12'' \<in> knownPRs (pollOurPRs acmeApp (Some [openPR11, foreignPR13]) pollerTracking12)"
    by simp
  from e1 e2 e3 e5 e6 e7 e8 e9 w7 w8 w9 w11 w12 show ?thesis by blast
qed

end
